theory Spec2Isabelle
  imports Main
begin

section \<open>RedNote-MCP: the resource-arbitration layer\<close>

text \<open>
  A shallow embedding of the parts of \<^verbatim>\<open>RedNoteTools\<close> (tools/rednoteTools.ts),
  \<^verbatim>\<open>AuthManager\<close> (auth/authManager.ts) and \<^verbatim>\<open>getRedNoteTools\<close> (cli.ts) that
  arbitrate access to the shared browser session: the content cache, the rate
  limiter, the retry loop, the browser slot, the global instance slot, the comment
  extraction strategies and the input validation of \<^verbatim>\<open>publishNote\<close>.

  Times are milliseconds as \<^verbatim>\<open>Date.now()\<close> returns them, modelled as \<^typ>\<open>int\<close>.
  A thrown JavaScript \<^verbatim>\<open>Error\<close> is a value of type \<open>error\<close>; a function that may
  throw returns \<open>error + 'a\<close> with \<open>Inl\<close> for the throw.
\<close>

subsection \<open>Errors, events and the state of a \<^verbatim>\<open>RedNoteTools\<close> instance\<close>

datatype error = Error string | TypeError string

text \<open>
  The order in which the components run is observed through a trace: every
  component appends one event when it is entered. The trace is not a field of the
  source; it records the calls the source makes, in program order.
\<close>

datatype event =
    EvCacheLookup string
  | EvCacheStore string
  | EvAdmission
  | EvGranted int
  | EvAttempt string int
  | EvSleep int
  | EvRemote

text \<open>
  \<open>clock\<close> is what \<^verbatim>\<open>Date.now()\<close> returns. \<open>lastRequestTime\<close>, \<open>requestCount\<close> and
  \<open>requestTimestamps\<close> are the static fields of the class, \<open>contentCache\<close> is the
  \<^verbatim>\<open>Map\<close> of the instance (key to data and timestamp). \<open>remote\<close> is the browser and
  the site behind it, opaque here. \<open>chance\<close> and \<open>draws\<close> supply what the run time
  decides: the value of \<^verbatim>\<open>Math.random()\<close> and by how much a timer fires late.
\<close>

record ('d, 'r) world =
  clock :: int
  lastRequestTime :: int
  requestCount :: nat
  requestTimestamps :: "int list"
  contentCache :: "string \<Rightarrow> ('d \<times> int) option"
  remote :: 'r
  chance :: "nat \<Rightarrow> nat"
  draws :: nat
  trace :: "event list"

definition emit :: "event \<Rightarrow> ('d, 'r) world \<Rightarrow> ('d, 'r) world" where
  "emit e w = w\<lparr>trace := trace w @ [e]\<rparr>"

definition draw :: "('d, 'r) world \<Rightarrow> nat \<times> ('d, 'r) world" where
  "draw w = (chance w (draws w), w\<lparr>draws := Suc (draws w)\<rparr>)"

text \<open>
  \<^verbatim>\<open>await new Promise(resolve => setTimeout(resolve, d))\<close>: the caller resumes no
  earlier than \<open>d\<close> milliseconds later; \<open>chance\<close> says how much later.
\<close>

definition sleep :: "int \<Rightarrow> ('d, 'r) world \<Rightarrow> ('d, 'r) world" where
  "sleep d w =
     (let (late, w1) = draw w
      in emit (EvSleep d) (w1\<lparr>clock := clock w1 + d + int late\<rparr>))"

text \<open>Time passing between two calls, while the caller does something else.\<close>

definition tick :: "nat \<Rightarrow> ('d, 'r) world \<Rightarrow> ('d, 'r) world" where
  "tick d w = w\<lparr>clock := clock w + int d\<rparr>"

text \<open>
  A process that has just started at time \<open>now\<close>: the static fields as the class
  initialises them, an empty cache, every timer punctual, every random draw 0.
\<close>

definition fresh :: "int \<Rightarrow> 'r \<Rightarrow> ('d, 'r) world" where
  "fresh now r =
     \<lparr>clock = now, lastRequestTime = 0, requestCount = 0, requestTimestamps = [],
      contentCache = (\<lambda>_. None), remote = r, chance = (\<lambda>_. 0), draws = 0, trace = []\<rparr>"

subsection \<open>The content cache\<close>

definition CACHE_TTL :: int where
  "CACHE_TTL = 30 * 60 * 1000"

text \<open>
  \<^verbatim>\<open>getCachedContent\<close>: the entry's data when there is an entry and
  \<^verbatim>\<open>Date.now() - cached.timestamp < CACHE_TTL\<close>, otherwise \<^verbatim>\<open>null\<close> (\<open>None\<close>). The
  map is not written.
\<close>

definition getCachedContent ::
    "string \<Rightarrow> ('d, 'r) world \<Rightarrow> 'd option \<times> ('d, 'r) world" where
  "getCachedContent key w =
     (let w1 = emit (EvCacheLookup key) w
      in case contentCache w1 key of
           None \<Rightarrow> (None, w1)
         | Some (data, timestamp) \<Rightarrow>
             if clock w1 - timestamp < CACHE_TTL then (Some data, w1) else (None, w1))"

text \<open>\<^verbatim>\<open>setCachedContent\<close>: \<^verbatim>\<open>Map.set\<close> with the data and \<^verbatim>\<open>Date.now()\<close>.\<close>

definition setCachedContent ::
    "string \<Rightarrow> 'd \<Rightarrow> ('d, 'r) world \<Rightarrow> ('d, 'r) world" where
  "setCachedContent key data w =
     emit (EvCacheStore key) (w\<lparr>contentCache := (contentCache w)(key \<mapsto> (data, clock w))\<rparr>)"

subsection \<open>The rate limiter\<close>

definition MIN_INTERVAL :: int where
  "MIN_INTERVAL = 10000"

definition MAX_REQUESTS_PER_HOUR :: nat where
  "MAX_REQUESTS_PER_HOUR = 20"

text \<open>
  \<^verbatim>\<open>checkRateLimit\<close> has two \<^verbatim>\<open>await\<close>s, each inside an \<^verbatim>\<open>if\<close>. The code between
  them is cut into three pieces, which run without interruption.

  \<open>rlPrune\<close>, from the entry to the first \<^verbatim>\<open>await\<close>: read \<^verbatim>\<open>now\<close>, keep the
  timestamps younger than one hour, and when at least \<open>MAX_REQUESTS_PER_HOUR\<close> are
  left compute the wait from the oldest one (\<^verbatim>\<open>requestTimestamps[0]\<close>). It returns
  \<^verbatim>\<open>now\<close>, which the rest of the function keeps using, and the wait if any.
\<close>

definition rlPrune ::
    "('d, 'r) world \<Rightarrow> int \<times> int option \<times> ('d, 'r) world" where
  "rlPrune w =
     (let now = clock w;
          w1 = w\<lparr>requestTimestamps := filter (\<lambda>timestamp. now - timestamp < 3600000)
                                          (requestTimestamps w)\<rparr>
      in if MAX_REQUESTS_PER_HOUR \<le> length (requestTimestamps w1)
         then (now, Some (3600000 - (now - hd (requestTimestamps w1)) + 1000), w1)
         else (now, None, w1))"

text \<open>
  \<open>rlInterval\<close>, the test before the second \<^verbatim>\<open>await\<close>: \<^verbatim>\<open>now\<close> is the value read
  at the entry, \<open>lastRequestTime\<close> is read when the test runs.
\<close>

definition rlInterval :: "int \<Rightarrow> ('d, 'r) world \<Rightarrow> int option" where
  "rlInterval now w =
     (let timeSinceLastRequest = now - lastRequestTime w
      in if timeSinceLastRequest < MIN_INTERVAL
         then Some (MIN_INTERVAL - timeSinceLastRequest) else None)"

text \<open>\<open>rlRecord\<close>, the end: \<^verbatim>\<open>Date.now()\<close> is read again, stored and pushed.\<close>

definition rlRecord :: "('d, 'r) world \<Rightarrow> ('d, 'r) world" where
  "rlRecord w =
     emit (EvGranted (clock w))
       (w\<lparr>lastRequestTime := clock w,
          requestTimestamps := requestTimestamps w @ [clock w],
          requestCount := Suc (requestCount w)\<rparr>)"

text \<open>
  One caller running \<^verbatim>\<open>checkRateLimit\<close> from entry to return, nobody else running
  in between: each \<^verbatim>\<open>await\<close> is a \<open>sleep\<close>.
\<close>

definition checkRateLimit :: "('d, 'r) world \<Rightarrow> ('d, 'r) world" where
  "checkRateLimit w =
     (let (now, hourly, w1) = rlPrune (emit EvAdmission w);
          w2 = (case hourly of Some waitTime \<Rightarrow> sleep waitTime w1 | None \<Rightarrow> w1);
          w3 = (case rlInterval now w2 of Some waitTime \<Rightarrow> sleep waitTime w2 | None \<Rightarrow> w2)
      in rlRecord w3)"

subsection \<open>The retry loop\<close>

type_synonym ('a, 'd, 'r) operation =
  "('d, 'r) world \<Rightarrow> (error + 'a) \<times> ('d, 'r) world"

text \<open>
  The pause after a failed attempt: \<^verbatim>\<open>Math.pow(2, attempt) * 1000\<close> plus
  \<^verbatim>\<open>Math.random() * 1000\<close>. The jitter is a whole number of milliseconds below
  1000 here.
\<close>

definition backoff :: "int \<Rightarrow> ('d, 'r) world \<Rightarrow> ('d, 'r) world" where
  "backoff attempt w =
     (let baseDelay = 2 ^ nat attempt * 1000;
          (r, w1) = draw w;
          jitter = int (r mod 1000)
      in sleep (baseDelay + jitter) w1)"

text \<open>
  The \<^verbatim>\<open>for\<close> loop of \<^verbatim>\<open>retryWithBackoff\<close> from a given value of \<^verbatim>\<open>attempt\<close>. A
  result of the operation is returned; its error is thrown again, as it is, when
  \<^verbatim>\<open>attempt === maxRetries\<close>; the \<^verbatim>\<open>throw\<close> after the loop is reached only when the
  loop body never ran.
\<close>

function retryLoop ::
    "('a, 'd, 'r) operation \<Rightarrow> string \<Rightarrow> int \<Rightarrow> int \<Rightarrow> ('a, 'd, 'r) operation" where
  "retryLoop operation operationName maxRetries attempt w =
     (if attempt \<le> maxRetries then
        (case operation (emit (EvAttempt operationName attempt) w) of
           (Inr v, w1) \<Rightarrow> (Inr v, w1)
         | (Inl e, w1) \<Rightarrow>
             if attempt = maxRetries then (Inl e, w1)
             else retryLoop operation operationName maxRetries (attempt + 1)
                    (backoff attempt w1))
      else (Inl (Error (''Max retries exceeded for '' @ operationName)), w))"
  by pat_completeness auto
termination
  by (relation "measure (\<lambda>(operation, operationName, maxRetries, attempt, w).
                   nat (maxRetries + 1 - attempt))") auto

declare retryLoop.simps [simp del]

definition retryWithBackoff ::
    "('a, 'd, 'r) operation \<Rightarrow> string \<Rightarrow> int \<Rightarrow> ('a, 'd, 'r) operation" where
  "retryWithBackoff operation operationName maxRetries w =
     retryLoop operation operationName maxRetries 1 w"

text \<open>
  For stating what the loop does: the state in which attempt \<open>n + 1\<close> starts when
  the attempts before it have failed, and the outcome of attempt \<open>n\<close>.
\<close>

fun beforeAttempt ::
    "('a, 'd, 'r) operation \<Rightarrow> string \<Rightarrow> nat \<Rightarrow> ('d, 'r) world \<Rightarrow> ('d, 'r) world" where
  "beforeAttempt operation operationName 0 w = w"
| "beforeAttempt operation operationName (Suc n) w =
     backoff (int (Suc n))
       (snd (operation (emit (EvAttempt operationName (int (Suc n)))
                          (beforeAttempt operation operationName n w))))"

definition nthAttempt ::
    "('a, 'd, 'r) operation \<Rightarrow> string \<Rightarrow> nat \<Rightarrow> ('a, 'd, 'r) operation" where
  "nthAttempt operation operationName n w =
     operation (emit (EvAttempt operationName (int n))
                  (beforeAttempt operation operationName (n - 1) w))"

subsection \<open>The content operations\<close>

text \<open>
  What an operation does with the browser (\<^verbatim>\<open>initialize\<close>, \<^verbatim>\<open>page.goto\<close>, the
  extraction) is a parameter \<open>fetch\<close> on the opaque state \<open>remote\<close>: it returns the
  extracted data or throws. The time it takes is not counted; time passes in
  \<open>sleep\<close> and \<open>tick\<close>.
\<close>

definition remoteCall :: "('r \<Rightarrow> (error + 'a) \<times> 'r) \<Rightarrow> ('a, 'd, 'r) operation" where
  "remoteCall fetch w =
     (let w1 = emit EvRemote w;
          (res, r) = fetch (remote w1)
      in (res, w1\<lparr>remote := r\<rparr>))"

text \<open>
  The closure the three operations hand to \<^verbatim>\<open>retryWithBackoff\<close>: the browser work,
  then \<^verbatim>\<open>setCachedContent(cacheKey, result)\<close> when it did not throw.
\<close>

definition fetchThenCache ::
    "string \<Rightarrow> ('r \<Rightarrow> (error + 'd) \<times> 'r) \<Rightarrow> ('d, 'd, 'r) operation" where
  "fetchThenCache cacheKey fetch w =
     (case remoteCall fetch w of
        (Inl e, w1) \<Rightarrow> (Inl e, w1)
      | (Inr v, w1) \<Rightarrow> (Inr v, setCachedContent cacheKey v w1))"

text \<open>
  \<^verbatim>\<open>searchNotes\<close>, \<^verbatim>\<open>getNoteContent\<close> and \<^verbatim>\<open>getNoteComments\<close>. Each one looks its
  key up first and returns a hit at once (the cached values are arrays and
  objects, which \<^verbatim>\<open>if (cached)\<close> takes as true); otherwise it awaits
  \<^verbatim>\<open>checkRateLimit\<close> and then returns what \<^verbatim>\<open>retryWithBackoff\<close> returns, with the
  default of three attempts. \<^verbatim>\<open>logPerformance\<close> around them only logs and throws
  again what it caught.

  The key of \<^verbatim>\<open>searchNotes\<close> holds \<^verbatim>\<open>`${limit}`\<close>, the string that the run time makes
  of a number: digits for the whole numbers of moderate size, an exponent form
  from 1e21 on, and also fractions, \<^verbatim>\<open>NaN\<close> and \<^verbatim>\<open>Infinity\<close>. The numbers and this
  conversion are parameters: \<open>limit\<close> is of any type, \<open>numberToString\<close> prints it.
\<close>

definition searchNotes ::
    "('n \<Rightarrow> string) \<Rightarrow> string \<Rightarrow> 'n \<Rightarrow> ('r \<Rightarrow> (error + 'd) \<times> 'r) \<Rightarrow>
     ('d, 'd, 'r) operation" where
  "searchNotes numberToString keywords limit fetch w =
     (let cacheKey = ''search:'' @ keywords @ '':'' @ numberToString limit;
          (cached, w1) = getCachedContent cacheKey w
      in case cached of
           Some v \<Rightarrow> (Inr v, w1)
         | None \<Rightarrow>
             retryWithBackoff (fetchThenCache cacheKey fetch) ''searchNotes'' 3
               (checkRateLimit w1))"

definition getNoteContent ::
    "string \<Rightarrow> ('r \<Rightarrow> (error + 'd) \<times> 'r) \<Rightarrow> ('d, 'd, 'r) operation" where
  "getNoteContent url fetch w =
     (let cacheKey = ''note:'' @ url;
          (cached, w1) = getCachedContent cacheKey w
      in case cached of
           Some v \<Rightarrow> (Inr v, w1)
         | None \<Rightarrow>
             retryWithBackoff (fetchThenCache cacheKey fetch) ''getNoteContent'' 3
               (checkRateLimit w1))"

definition getNoteComments ::
    "string \<Rightarrow> ('r \<Rightarrow> (error + 'd) \<times> 'r) \<Rightarrow> ('d, 'd, 'r) operation" where
  "getNoteComments url fetch w =
     (let cacheKey = ''comments:'' @ url;
          (cached, w1) = getCachedContent cacheKey w
      in case cached of
           Some v \<Rightarrow> (Inr v, w1)
         | None \<Rightarrow>
             retryWithBackoff (fetchThenCache cacheKey fetch) ''getNoteComments'' 3
               (checkRateLimit w1))"

text \<open>
  Reading the order of the components off a trace: each event belongs to the
  component that emits it (a pause belongs to none), and \<open>phases\<close> lists the
  components in the order in which the trace passes through them.
\<close>

datatype stage = CacheCheck | AdmissionCheck | RetryFetch

fun stageOf :: "event \<Rightarrow> stage option" where
  "stageOf (EvCacheLookup _) = Some CacheCheck"
| "stageOf EvAdmission = Some AdmissionCheck"
| "stageOf (EvGranted _) = Some AdmissionCheck"
| "stageOf (EvAttempt _ _) = Some RetryFetch"
| "stageOf EvRemote = Some RetryFetch"
| "stageOf (EvCacheStore _) = Some RetryFetch"
| "stageOf (EvSleep _) = None"

fun enter :: "stage \<Rightarrow> stage list \<Rightarrow> stage list" where
  "enter s [] = [s]"
| "enter s (t # ts) = (if s = t then t # ts else s # t # ts)"

fun phases :: "event list \<Rightarrow> stage list" where
  "phases [] = []"
| "phases (e # es) =
     (case stageOf e of
        None \<Rightarrow> phases es
      | Some s \<Rightarrow> enter s (phases es))"

definition onlyStage :: "stage \<Rightarrow> event list \<Rightarrow> bool" where
  "onlyStage s es = (\<forall>e \<in> set es. stageOf e = None \<or> stageOf e = Some s)"

text \<open>The events a call added to the trace.\<close>

definition newEvents :: "('d, 'r) world \<Rightarrow> ('d, 'r) world \<Rightarrow> event list" where
  "newEvents w w' = drop (length (trace w)) (trace w')"

text \<open>An operation that throws a different error at each of its first three calls.\<close>

definition failingThrice :: "('a, 'd, nat) operation" where
  "failingThrice w =
     (Inl (Error (if remote w = 0 then ''net::ERR_TIMED_OUT''
                  else if remote w = 1 then ''net::ERR_CONNECTION_RESET''
                  else ''Page not initialized'')),
      w\<lparr>remote := Suc (remote w)\<rparr>)"

subsection \<open>Strings as JavaScript handles them\<close>

text \<open>
  Strings are lists of \<^typ>\<open>char\<close>, read as the code units below 256. \<open>trim\<close>
  removes white space and line terminators at both ends; below 256 these are
  the code units 9 to 13, 32 and 160.
\<close>

definition isWhiteSpace :: "char \<Rightarrow> bool" where
  "isWhiteSpace c = ((of_char c :: nat) \<in> {9, 10, 11, 12, 13, 32, 160})"

definition trim :: "string \<Rightarrow> string" where
  "trim s = rev (dropWhile isWhiteSpace (rev (dropWhile isWhiteSpace s)))"

text \<open>\<^verbatim>\<open>toLowerCase\<close>: A to Z, and the capital letters 192 to 222 but 215.\<close>

definition lowerChar :: "char \<Rightarrow> char" where
  "lowerChar c =
     (let n = (of_char c :: nat)
      in if (65 \<le> n \<and> n \<le> 90) \<or> (192 \<le> n \<and> n \<le> 222 \<and> n \<noteq> 215)
         then char_of (n + 32) else c)"

definition toLowerCase :: "string \<Rightarrow> string" where
  "toLowerCase s = map lowerChar s"

text \<open>\<^verbatim>\<open>s.split(c)\<close> for a one-character separator: never an empty array.\<close>

fun split :: "char \<Rightarrow> string \<Rightarrow> string list" where
  "split c [] = [[]]"
| "split c (x # xs) =
     (if x = c then [] # split c xs
      else (case split c xs of
              y # ys \<Rightarrow> (x # y) # ys
            | [] \<Rightarrow> [[x]]))"

text \<open>\<^verbatim>\<open>s.includes(sub)\<close>.\<close>

fun startsWith :: "string \<Rightarrow> string \<Rightarrow> bool" where
  "startsWith s [] = True"
| "startsWith [] (y # ys) = False"
| "startsWith (x # xs) (y # ys) = (x = y \<and> startsWith xs ys)"

fun includesStr :: "string \<Rightarrow> string \<Rightarrow> bool" where
  "includesStr [] sub = (sub = [])"
| "includesStr (x # xs) sub = (startsWith (x # xs) sub \<or> includesStr xs sub)"

subsection \<open>\<^verbatim>\<open>publishNote\<close>: validation before anything else\<close>

text \<open>
  What \<^verbatim>\<open>fs\<close> and \<^verbatim>\<open>path\<close> answer: \<open>resolve\<close> is \<^verbatim>\<open>path.resolve\<close> in the current
  directory, \<open>kindOf\<close> says what is at a resolved path. \<^verbatim>\<open>fs.existsSync\<close> holds
  when something is there, \<^verbatim>\<open>fs.statSync(p).isFile()\<close> when it is a regular file.
\<close>

datatype fileKind = RegularFile | Directory | OtherKind

record filesystem =
  resolve :: "string \<Rightarrow> string"
  kindOf :: "string \<Rightarrow> fileKind option"

definition existsSync :: "filesystem \<Rightarrow> string \<Rightarrow> bool" where
  "existsSync fs p = (kindOf fs p \<noteq> None)"

definition isFile :: "filesystem \<Rightarrow> string \<Rightarrow> bool" where
  "isFile fs p = (kindOf fs p = Some RegularFile)"

definition allowedExtensions :: "string list" where
  "allowedExtensions = [''jpg'', ''jpeg'', ''png'', ''gif'', ''webp'']"

text \<open>\<^verbatim>\<open>imagePath.toLowerCase().split('.').pop()\<close>\<close>

definition extensionOf :: "string \<Rightarrow> string" where
  "extensionOf imagePath = last (split CHR ''.'' (toLowerCase imagePath))"

text \<open>
  The \<^verbatim>\<open>for\<close> loop of \<^verbatim>\<open>validateImagePaths\<close> with \<^verbatim>\<open>validPaths\<close> as accumulator,
  then the test on the number of valid paths.
\<close>

fun validateLoop :: "filesystem \<Rightarrow> string list \<Rightarrow> string list \<Rightarrow> error + string list" where
  "validateLoop fs [] validPaths = Inr validPaths"
| "validateLoop fs (imagePath # rest) validPaths =
     (let resolvedPath = resolve fs imagePath
      in if \<not> existsSync fs resolvedPath
           then Inl (Error (''Image file not found: '' @ imagePath))
         else if \<not> isFile fs resolvedPath
           then Inl (Error (''Path is not a file: '' @ imagePath))
         else (let ext = extensionOf imagePath
               in if ext = [] \<or> ext \<notin> set allowedExtensions
                    then Inl (Error (''Unsupported image format: '' @ imagePath
                                      @ ''. Supported: jpg, jpeg, png, gif, webp''))
                  else validateLoop fs rest (validPaths @ [resolvedPath])))"

definition validateImagePaths :: "filesystem \<Rightarrow> string list \<Rightarrow> error + string list" where
  "validateImagePaths fs imagePaths =
     (case validateLoop fs imagePaths [] of
        Inl e \<Rightarrow> Inl e
      | Inr validPaths \<Rightarrow>
          if 18 < length validPaths then Inl (Error ''Maximum 18 images allowed'')
          else Inr validPaths)"

text \<open>
  \<^verbatim>\<open>publishNote\<close>. The three tests and \<^verbatim>\<open>validateImagePaths\<close> run before
  \<^verbatim>\<open>retryWithBackoff\<close> is called; the closure given to it awaits \<^verbatim>\<open>checkRateLimit\<close>
  first and then works with the browser, which is the parameter \<open>publish\<close> (it
  gets the valid paths, the title, the content and the tags).
\<close>

definition publishNote ::
    "filesystem \<Rightarrow> (string list \<Rightarrow> string \<Rightarrow> string \<Rightarrow> string \<Rightarrow> 'r \<Rightarrow> (error + 'a) \<times> 'r) \<Rightarrow>
     string \<Rightarrow> string \<Rightarrow> string list \<Rightarrow> string \<Rightarrow> ('a, 'd, 'r) operation" where
  "publishNote fs publish title content imagePaths tags w =
     (if trim title = [] then (Inl (Error ''Note title cannot be empty''), w)
      else if trim content = [] then (Inl (Error ''Note content cannot be empty''), w)
      else if imagePaths = [] then (Inl (Error ''At least one image is required''), w)
      else (case validateImagePaths fs imagePaths of
              Inl e \<Rightarrow> (Inl e, w)
            | Inr validImagePaths \<Rightarrow>
                retryWithBackoff
                  (\<lambda>w. remoteCall (publish validImagePaths title content tags) (checkRateLimit w))
                  ''publishNote'' 3 w))"

text \<open>The ways in which the input of \<^verbatim>\<open>publishNote\<close> can be invalid.\<close>

definition blank :: "string \<Rightarrow> bool" where
  "blank s = (\<forall>c \<in> set s. isWhiteSpace c)"

definition badImage :: "filesystem \<Rightarrow> string \<Rightarrow> bool" where
  "badImage fs imagePath =
     (\<not> existsSync fs (resolve fs imagePath) \<or> \<not> isFile fs (resolve fs imagePath)
      \<or> extensionOf imagePath \<notin> set allowedExtensions)"

definition invalidInput :: "filesystem \<Rightarrow> string \<Rightarrow> string \<Rightarrow> string list \<Rightarrow> bool" where
  "invalidInput fs title content imagePaths =
     (blank title \<or> blank content \<or> imagePaths = []
      \<or> (\<exists>imagePath \<in> set imagePaths. badImage fs imagePath)
      \<or> 18 < length imagePaths)"

text \<open>A directory with the regular file \<^verbatim>\<open>/img/a.png\<close> and the directory \<^verbatim>\<open>/img/d.png\<close>.\<close>

definition exampleFs :: filesystem where
  "exampleFs =
     \<lparr>resolve = (\<lambda>p. p),
      kindOf = (\<lambda>p. if p = ''/img/a.png'' \<or> p = ''/img/a.bmp'' then Some RegularFile
                     else if p = ''/img/d.png'' then Some Directory else None)\<rparr>"

subsection \<open>Finding the comment elements on a page\<close>

text \<open>
  The function that \<^verbatim>\<open>getNoteComments\<close> evaluates in the page sees the document
  through these queries: \<^verbatim>\<open>document.querySelectorAll\<close>, \<^verbatim>\<open>querySelectorAll\<close> of an
  element, and of an element its \<^verbatim>\<open>textContent\<close>, its \<^verbatim>\<open>className\<close> and its
  attribute \<^verbatim>\<open>data-testid\<close> (the text and the attribute are the empty string when
  missing). Selectors are strings that only the page interprets.

  \<^verbatim>\<open>className\<close> is a string for an HTML element and an object
  (\<^verbatim>\<open>SVGAnimatedString\<close>) for an SVG element.
\<close>

datatype classValue = ClassString string | ClassObject

record 'e page =
  querySelectorAll :: "string \<Rightarrow> 'e list"
  elementQuerySelectorAll :: "'e \<Rightarrow> string \<Rightarrow> 'e list"
  textContent :: "'e \<Rightarrow> string"
  className :: "'e \<Rightarrow> classValue"
  dataTestid :: "'e \<Rightarrow> string"

text \<open>An attribute selector such as \<^verbatim>\<open>[role=...]\<close> with its value in double quotes.\<close>

definition attr :: "string \<Rightarrow> string \<Rightarrow> string" where
  "attr name val = ''['' @ name @ ''='' @ [CHR 0x22] @ val @ [CHR 0x22] @ '']''"

text \<open>
  The loop of strategies 1 and 2: the items of the first query that has any, or
  \<^verbatim>\<open>null\<close>.
\<close>

fun firstNonEmpty :: "('x \<Rightarrow> 'e list) \<Rightarrow> 'x list \<Rightarrow> 'e list option" where
  "firstNonEmpty query [] = None"
| "firstNonEmpty query (x # xs) =
     (let items = query x
      in if 0 < length items then Some items else firstNonEmpty query xs)"

text \<open>Strategy 1: the list items of the first dialog that has some.\<close>

definition strategy1 :: "'e page \<Rightarrow> 'e list option" where
  "strategy1 page =
     (let dialogs = querySelectorAll page (attr ''role'' ''dialog'' @ '', .modal, .popup'')
      in firstNonEmpty
           (\<lambda>dialog. elementQuerySelectorAll page dialog
              (attr ''role'' ''listitem'' @ '', .comment-item, '' @ attr ''class*'' ''comment''))
           dialogs)"

text \<open>Strategy 2: the first of six selectors that matches anything.\<close>

definition strategy2 :: "'e page \<Rightarrow> 'e list option" where
  "strategy2 page =
     (let selectors =
            [attr ''role'' ''dialog'' @ '' '' @ attr ''role'' ''list'' @ '' ''
               @ attr ''role'' ''listitem'',
             ''.comment-list .comment-item'',
             ''.comments-container .comment'',
             attr ''data-testid'' ''comment-item'',
             ''.note-comments .comment'',
             ''.detail-comments .comment'']
      in firstNonEmpty (querySelectorAll page) selectors)"

text \<open>
  Strategy 3: every element with a short text whose class or test id mentions
  \<^verbatim>\<open>comment\<close> or \<^verbatim>\<open>user\<close>. The loop over all elements, with \<^verbatim>\<open>commentElements\<close> as
  accumulator. \<^verbatim>\<open>element.className || ''\<close> leaves an object as it is, and an object
  has no \<^verbatim>\<open>includes\<close>: for an element with a text of 1 to 499 characters whose
  class is an object, \<^verbatim>\<open>classList.includes('comment')\<close> throws a \<^verbatim>\<open>TypeError\<close>.
  Nothing catches it, neither in the strategy nor around the call of the
  strategy, so the function evaluated in the page throws.
\<close>

fun strategy3Loop :: "'e page \<Rightarrow> 'e list \<Rightarrow> 'e list \<Rightarrow> error + 'e list" where
  "strategy3Loop page [] commentElements = Inr commentElements"
| "strategy3Loop page (element # rest) commentElements =
     (let text = textContent page element;
          classList = className page element;
          testid = dataTestid page element
      in if 0 < length text \<and> length text < 500 then
           (case classList of
              ClassObject \<Rightarrow> Inl (TypeError ''classList.includes is not a function'')
            | ClassString cls \<Rightarrow>
                if includesStr cls ''comment'' \<or> includesStr testid ''comment''
                   \<or> includesStr cls ''user'' \<or> includesStr testid ''user''
                then strategy3Loop page rest (commentElements @ [element])
                else strategy3Loop page rest commentElements)
         else strategy3Loop page rest commentElements)"

definition strategy3 :: "'e page \<Rightarrow> error + 'e list option" where
  "strategy3 page =
     (let allElements = querySelectorAll page ''*''
      in case strategy3Loop page allElements [] of
           Inl e \<Rightarrow> Inl e
         | Inr commentElements \<Rightarrow>
             Inr (if 0 < length commentElements then Some commentElements else None))"

text \<open>The array of strategies; the first two cannot throw.\<close>

definition strategies :: "('e page \<Rightarrow> error + 'e list option) list" where
  "strategies = [\<lambda>page. Inr (strategy1 page), \<lambda>page. Inr (strategy2 page), strategy3]"

text \<open>\<^verbatim>\<open>items && items.length > 0\<close>\<close>

definition yields :: "'e list option \<Rightarrow> bool" where
  "yields items = (case items of Some xs \<Rightarrow> 0 < length xs | None \<Rightarrow> False)"

text \<open>
  The \<^verbatim>\<open>for\<close> loop over the strategies from index \<open>i\<close>. It returns \<^verbatim>\<open>items\<close> and
  \<^verbatim>\<open>usedStrategy\<close> as the loop leaves them and, to observe which strategies were
  called, their numbers in the order of the calls. What a strategy throws leaves
  the loop.
\<close>

fun strategyLoop ::
    "('e page \<Rightarrow> error + 'e list option) list \<Rightarrow> 'e page \<Rightarrow> nat \<Rightarrow> 'e list option \<Rightarrow>
     nat list \<Rightarrow> error + ('e list option \<times> nat \<times> nat list)" where
  "strategyLoop [] page i items called = Inr (items, 0, called)"
| "strategyLoop (strategy # rest) page i items called =
     (case strategy page of
        Inl e \<Rightarrow> Inl e
      | Inr items1 \<Rightarrow>
          (let called1 = called @ [i + 1]
           in if yields items1 then Inr (items1, i + 1, called1)
              else strategyLoop rest page (i + 1) items1 called1))"

definition findCommentItems :: "'e page \<Rightarrow> error + ('e list option \<times> nat \<times> nat list)" where
  "findCommentItems page = strategyLoop strategies page 0 None []"

text \<open>
  The rest of the in-page function: nothing found gives \<^verbatim>\<open>[]\<close>; otherwise every
  item is turned into a comment, or dropped when it has neither author nor
  content or when reading it throws (the body of that loop is in a \<^verbatim>\<open>try\<close>).
  Reading one item is the parameter \<open>extractItem\<close>.
\<close>

definition extractComments ::
    "('e page \<Rightarrow> 'e \<Rightarrow> 'c option) \<Rightarrow> 'e page \<Rightarrow> error + 'c list" where
  "extractComments extractItem page =
     (case findCommentItems page of
        Inl e \<Rightarrow> Inl e
      | Inr (items, usedStrategy, called) \<Rightarrow>
          Inr (if \<not> yields items then []
               else List.map_filter (extractItem page)
                      (case items of Some xs \<Rightarrow> xs | None \<Rightarrow> [])))"

text \<open>
  Four pages. On \<open>examplePage\<close> there is no dialog, \<^verbatim>\<open>.comment-list .comment-item\<close>
  matches the elements 1 and 2, the elements 0, 1 and 2 have a class that
  mentions \<^verbatim>\<open>comment\<close>, and element 3 is an SVG element with a short text.
  \<open>svgPage\<close> is the same page but no selector of strategy 2 matches; \<open>plainPage\<close>
  is \<open>svgPage\<close> without the SVG element; on \<open>dialogPage\<close> element 9 is a dialog
  with the list items 1 and 2.
\<close>

definition examplePage :: "nat page" where
  "examplePage =
     \<lparr>querySelectorAll =
        (\<lambda>selector. if selector = ''.comment-list .comment-item'' then [1, 2]
                    else if selector = ''*'' then [0, 1, 2, 3] else []),
      elementQuerySelectorAll = (\<lambda>element selector. []),
      textContent = (\<lambda>element. ''nice''),
      className = (\<lambda>element. if element = 0 then ClassString ''comment-list''
                               else if element = 3 then ClassObject
                               else ClassString ''comment-item''),
      dataTestid = (\<lambda>element. [])\<rparr>"

definition svgPage :: "nat page" where
  "svgPage =
     examplePage\<lparr>querySelectorAll := (\<lambda>selector. if selector = ''*'' then [0, 1, 2, 3] else [])\<rparr>"

definition plainPage :: "nat page" where
  "plainPage =
     examplePage\<lparr>querySelectorAll := (\<lambda>selector. if selector = ''*'' then [0, 1, 2] else [])\<rparr>"

definition dialogPage :: "nat page" where
  "dialogPage =
     examplePage
       \<lparr>querySelectorAll :=
          (\<lambda>selector. if selector = attr ''role'' ''dialog'' @ '', .modal, .popup'' then [9]
                      else querySelectorAll examplePage selector),
        elementQuerySelectorAll := (\<lambda>element selector. if element = 9 then [1, 2] else [])\<rparr>"

subsection \<open>\<^verbatim>\<open>AuthManager\<close>: the shared browser\<close>

text \<open>
  The static fields \<^verbatim>\<open>browserInstance\<close> and \<^verbatim>\<open>lastUsed\<close>, the clock, and a log of
  what was done to browsers and what was written with \<^verbatim>\<open>logger.error\<close>.
\<close>

datatype 'b authEvent = EvClose 'b | EvCloseErrorLogged error | EvLaunch

record 'b authState =
  browserInstance :: "'b option"
  lastUsed :: int
  authClock :: int
  authLog :: "'b authEvent list"

text \<open>
  What the browser driver answers: whether a browser is still connected, what
  \<^verbatim>\<open>close()\<close> throws if it throws, what \<^verbatim>\<open>chromium.launch\<close> returns or throws, and
  how long the two take.
\<close>

record 'b chromium =
  isConnected :: "'b \<Rightarrow> bool"
  closeThrows :: "'b \<Rightarrow> error option"
  launchResult :: "error + 'b"
  closeTime :: nat
  launchTime :: nat

definition BROWSER_TIMEOUT :: int where
  "BROWSER_TIMEOUT = 30 * 60 * 1000"

definition isBrowserValid :: "'b chromium \<Rightarrow> 'b authState \<Rightarrow> bool" where
  "isBrowserValid env s =
     (case browserInstance s of
        None \<Rightarrow> False
      | Some b \<Rightarrow>
          (let now = authClock s;
               isExpired = (now - lastUsed s > BROWSER_TIMEOUT);
               connected = isConnected env b
           in if isExpired \<or> \<not> connected then False else True))"

text \<open>
  \<^verbatim>\<open>cleanupBrowserInstance\<close>: \<^verbatim>\<open>close()\<close> inside \<^verbatim>\<open>try\<close>, its error logged in
  \<^verbatim>\<open>catch\<close>, the field set to \<^verbatim>\<open>null\<close> in \<^verbatim>\<open>finally\<close>.
\<close>

definition cleanupBrowserInstance :: "'b chromium \<Rightarrow> 'b authState \<Rightarrow> 'b authState" where
  "cleanupBrowserInstance env s =
     (case browserInstance s of
        None \<Rightarrow> s
      | Some b \<Rightarrow>
          (let s1 = s\<lparr>authLog := authLog s @ [EvClose b],
                      authClock := authClock s + int (closeTime env)\<rparr>;
               s2 = (case closeThrows env b of
                       Some e \<Rightarrow> s1\<lparr>authLog := authLog s1 @ [EvCloseErrorLogged e]\<rparr>
                     | None \<Rightarrow> s1)
           in s2\<lparr>browserInstance := None\<rparr>))"

text \<open>
  \<^verbatim>\<open>getBrowser\<close>. A valid browser is returned and its time of use refreshed.
  Otherwise the old one is cleaned up and a new one launched; the static fields
  are assigned only when the launch has returned. \<^verbatim>\<open>isBrowserValid\<close> holds only when
  the field is not empty, so the branch for an empty field in the first case is
  never taken; it is there because the function must be total.
\<close>

definition getBrowser :: "'b chromium \<Rightarrow> 'b authState \<Rightarrow> (error + 'b) \<times> 'b authState" where
  "getBrowser env s =
     (if isBrowserValid env s then
        (case browserInstance s of
           Some b \<Rightarrow> (Inr b, s\<lparr>lastUsed := authClock s\<rparr>)
         | None \<Rightarrow> (Inl (Error ''no browser instance''), s))
      else
        (let s1 = cleanupBrowserInstance env s;
             s2 = s1\<lparr>authLog := authLog s1 @ [EvLaunch],
                     authClock := authClock s1 + int (launchTime env)\<rparr>
         in case launchResult env of
              Inl e \<Rightarrow> (Inl e, s2)
            | Inr b \<Rightarrow> (Inr b, s2\<lparr>browserInstance := Some b, lastUsed := authClock s2\<rparr>)))"

text \<open>
  A driver whose browser 1 is disconnected and throws when closed and whose next
  launch gives browser 2; a driver whose browser 1 is connected.
\<close>

definition brokenDriver :: "nat chromium" where
  "brokenDriver =
     \<lparr>isConnected = (\<lambda>b. False),
      closeThrows = (\<lambda>b. Some (Error ''Target closed'')),
      launchResult = Inr 2, closeTime = 40, launchTime = 900\<rparr>"

definition healthyDriver :: "nat chromium" where
  "healthyDriver =
     \<lparr>isConnected = (\<lambda>b. True), closeThrows = (\<lambda>b. None),
      launchResult = Inr 2, closeTime = 40, launchTime = 900\<rparr>"

definition holding :: "nat \<Rightarrow> int \<Rightarrow> int \<Rightarrow> nat authState" where
  "holding b used now = \<lparr>browserInstance = Some b, lastUsed = used, authClock = now, authLog = []\<rparr>"

subsection \<open>\<^verbatim>\<open>getRedNoteTools\<close>: the global instance\<close>

text \<open>
  Several tool handlers may have called \<^verbatim>\<open>getRedNoteTools\<close> and not yet have their
  answer. One call runs at a time, until it returns, throws or reaches an
  \<^verbatim>\<open>await\<close>; the others run in between. A call is therefore in one of these
  places: not yet started, in the polling loop (awaiting the 100 ms timer),
  awaiting \<^verbatim>\<open>initialize()\<close> of the instance it made, or finished with a value or
  with an error.

  Instances of \<^verbatim>\<open>RedNoteTools\<close> are numbered in the order in which
  \<^verbatim>\<open>new RedNoteTools()\<close> is evaluated.
\<close>

datatype call =
    NotCalled
  | Polling
  | Initializing nat
  | Returned "nat option"
  | Threw error

text \<open>
  The module variables \<^verbatim>\<open>globalRedNoteTools\<close> and \<^verbatim>\<open>isInitializing\<close>; how many times
  \<^verbatim>\<open>new RedNoteTools()\<close> was evaluated; the instances whose \<^verbatim>\<open>initialize()\<close> has
  completed without error; the calls.
\<close>

record coordinator =
  globalRedNoteTools :: "nat option"
  isInitializing :: bool
  constructions :: nat
  ready :: "nat list"
  calls :: "call list"

text \<open>
  What \<^verbatim>\<open>new RedNoteTools()\<close> and \<^verbatim>\<open>initialize()\<close> do for the instance of a given
  number: the error they throw, if they throw.
\<close>

record toolsEnv =
  constructorThrows :: "nat \<Rightarrow> error option"
  initializeThrows :: "nat \<Rightarrow> error option"

text \<open>
  From \<^verbatim>\<open>isInitializing = true\<close> to \<^verbatim>\<open>await globalRedNoteTools.initialize()\<close>: the
  variable is assigned as soon as the constructor returns. When the constructor
  throws, \<^verbatim>\<open>finally\<close> clears the flag and the error leaves the function.
\<close>

definition construct :: "toolsEnv \<Rightarrow> coordinator \<Rightarrow> call \<times> coordinator" where
  "construct env s =
     (let s1 = s\<lparr>isInitializing := True\<rparr>;
          n = constructions s1;
          s2 = s1\<lparr>constructions := Suc n\<rparr>
      in case constructorThrows env n of
           Some e \<Rightarrow> (Threw e, s2\<lparr>isInitializing := False\<rparr>)
         | None \<Rightarrow> (Initializing n, s2\<lparr>globalRedNoteTools := Some n\<rparr>))"

text \<open>
  One call running from where it is to its next \<^verbatim>\<open>await\<close> or to its end.
\<close>

fun resume :: "toolsEnv \<Rightarrow> call \<Rightarrow> coordinator \<Rightarrow> call \<times> coordinator" where
  "resume env NotCalled s =
     (case globalRedNoteTools s of
        Some n \<Rightarrow> (Returned (Some n), s)
      | None \<Rightarrow> if isInitializing s then (Polling, s) else construct env s)"
| "resume env Polling s =
     (if isInitializing s then (Polling, s)
      else (case globalRedNoteTools s of
              Some n \<Rightarrow> (Returned (Some n), s)
            | None \<Rightarrow> construct env s))"
| "resume env (Initializing n) s =
     (let s1 = s\<lparr>isInitializing := False\<rparr>
      in case initializeThrows env n of
           Some e \<Rightarrow> (Threw e, s1)
         | None \<Rightarrow> (Returned (globalRedNoteTools s1), s1\<lparr>ready := ready s1 @ [n]\<rparr>))"
| "resume env (Returned r) s = (Returned r, s)"
| "resume env (Threw e) s = (Threw e, s)"

definition step :: "toolsEnv \<Rightarrow> nat \<Rightarrow> coordinator \<Rightarrow> coordinator" where
  "step env i s =
     (if i < length (calls s) then
        (let (c, s1) = resume env (calls s ! i) s
         in s1\<lparr>calls := (calls s)[i := c]\<rparr>)
      else s)"

text \<open>A schedule says which call runs next, again and again.\<close>

fun run :: "toolsEnv \<Rightarrow> nat list \<Rightarrow> coordinator \<Rightarrow> coordinator" where
  "run env [] s = s"
| "run env (i # schedule) s = run env schedule (step env i s)"

text \<open>The process before the first call, with \<open>C\<close> calls to come.\<close>

definition initial :: "nat \<Rightarrow> coordinator" where
  "initial C =
     \<lparr>globalRedNoteTools = None, isInitializing = False, constructions = 0, ready = [],
      calls = replicate C NotCalled\<rparr>"

fun isInFlight :: "call \<Rightarrow> bool" where
  "isInFlight (Initializing n) = True"
| "isInFlight c = False"

definition inFlight :: "coordinator \<Rightarrow> nat" where
  "inFlight s = length (filter isInFlight (calls s))"

text \<open>Nothing throws; and the user is not logged in, so that \<^verbatim>\<open>initialize()\<close> throws.\<close>

definition allGood :: toolsEnv where
  "allGood = \<lparr>constructorThrows = (\<lambda>n. None), initializeThrows = (\<lambda>n. None)\<rparr>"

definition notLoggedIn :: toolsEnv where
  "notLoggedIn =
     \<lparr>constructorThrows = (\<lambda>n. None),
      initializeThrows = (\<lambda>n. Some (Error ''Not logged in''))\<rparr>"

text \<open>
  What holds of the coordinator at any time: nobody is ever in the polling
  loop, the flag is up only while the variable is assigned, and the number of
  calls awaiting \<^verbatim>\<open>initialize()\<close> is one when the flag is up and none otherwise.
\<close>

definition coordInv :: "coordinator \<Rightarrow> bool" where
  "coordInv s =
     (Polling \<notin> set (calls s)
      \<and> (isInitializing s \<longrightarrow> globalRedNoteTools s \<noteq> None)
      \<and> inFlight s = (if isInitializing s then 1 else 0))"

text \<open>
  What holds in addition while the first constructor call and the first
  \<^verbatim>\<open>initialize()\<close> do not throw.
\<close>

definition okInv :: "coordinator \<Rightarrow> bool" where
  "okInv s =
     (case globalRedNoteTools s of
        None \<Rightarrow> constructions s = 0 \<and> \<not> isInitializing s
                 \<and> (\<forall>c \<in> set (calls s). c = NotCalled)
      | Some n \<Rightarrow> n = 0 \<and> constructions s = 1
                 \<and> (\<forall>c \<in> set (calls s).
                       c = NotCalled \<or> c = Initializing 0 \<or> c = Returned (Some 0)))"

text \<open>How many more times a call has to run before it has finished, at most.\<close>

fun stepsLeft :: "call \<Rightarrow> nat" where
  "stepsLeft NotCalled = 2"
| "stepsLeft Polling = 2"
| "stepsLeft (Initializing n) = 1"
| "stepsLeft (Returned r) = 0"
| "stepsLeft (Threw e) = 0"

subsection \<open>Several callers in \<^verbatim>\<open>checkRateLimit\<close> at once\<close>

text \<open>
  While one caller of \<^verbatim>\<open>checkRateLimit\<close> is suspended in an \<^verbatim>\<open>await\<close>, another tool
  call may enter the function. A caller is then at one of these places: not yet
  arrived, suspended in the hourly wait (with the \<^verbatim>\<open>now\<close> it read at the entry and
  the time at which its timer expires), suspended in the interval wait (with the
  time at which its timer expires), or admitted.
\<close>

datatype rlCall =
    NotArrived
  | WaitingHourly int int
  | WaitingInterval int
  | Admitted

text \<open>From the interval test on: suspend, or record and return.\<close>

definition rlContinue :: "int \<Rightarrow> ('d, 'r) world \<Rightarrow> rlCall \<times> ('d, 'r) world" where
  "rlContinue now w =
     (case rlInterval now w of
        Some waitTime \<Rightarrow> (WaitingInterval (clock w + waitTime), w)
      | None \<Rightarrow> (Admitted, rlRecord w))"

text \<open>A caller running from where it is to its next \<^verbatim>\<open>await\<close> or to its return.\<close>

fun rlResume :: "rlCall \<Rightarrow> ('d, 'r) world \<Rightarrow> rlCall \<times> ('d, 'r) world" where
  "rlResume NotArrived w =
     (let (now, hourly, w1) = rlPrune (emit EvAdmission w)
      in case hourly of
           Some waitTime \<Rightarrow> (WaitingHourly now (clock w1 + waitTime), w1)
         | None \<Rightarrow> rlContinue now w1)"
| "rlResume (WaitingHourly now wake) w = rlContinue now w"
| "rlResume (WaitingInterval wake) w = (Admitted, rlRecord w)"
| "rlResume Admitted w = (Admitted, w)"

text \<open>
  A caller can run at time \<open>t\<close> when it has not arrived yet, or when its timer has
  expired.
\<close>

fun canRun :: "rlCall \<Rightarrow> int \<Rightarrow> bool" where
  "canRun NotArrived t = True"
| "canRun (WaitingHourly now wake) t = (wake \<le> t)"
| "canRun (WaitingInterval wake) t = (wake \<le> t)"
| "canRun Admitted t = False"

text \<open>
  A timed schedule is a list of pairs: at time \<open>t\<close> caller \<open>i\<close> runs. It can happen
  only if time does not go back and every caller runs when it can; otherwise the
  result is \<open>None\<close>.
\<close>

definition rlStep ::
    "int \<times> nat \<Rightarrow> ('d, 'r) world \<times> rlCall list \<Rightarrow> (('d, 'r) world \<times> rlCall list) option" where
  "rlStep ev st =
     (case (ev, st) of
        ((t, i), (w, cs)) \<Rightarrow>
          if i < length cs \<and> clock w \<le> t \<and> canRun (cs ! i) t then
            (let (c, w1) = rlResume (cs ! i) (w\<lparr>clock := t\<rparr>)
             in Some (w1, cs[i := c]))
          else None)"

fun rlRun ::
    "(int \<times> nat) list \<Rightarrow> ('d, 'r) world \<times> rlCall list \<Rightarrow>
     (('d, 'r) world \<times> rlCall list) option" where
  "rlRun [] st = Some st"
| "rlRun (ev # evs) st = (case rlStep ev st of None \<Rightarrow> None | Some st1 \<Rightarrow> rlRun evs st1)"

text \<open>The times of all admissions so far, in the order in which they were recorded.\<close>

fun grantTimes :: "event list \<Rightarrow> int list" where
  "grantTimes [] = []"
| "grantTimes (EvGranted t # es) = t # grantTimes es"
| "grantTimes (e # es) = grantTimes es"

text \<open>Consecutive times are at least \<open>MIN_INTERVAL\<close> apart.\<close>

fun spaced :: "int list \<Rightarrow> bool" where
  "spaced (a # b # ts) = (MIN_INTERVAL \<le> b - a \<and> spaced (b # ts))"
| "spaced ts = True"

text \<open>The timestamps of a sequence that lie within the hour before \<open>now\<close>.\<close>

definition withinHour :: "int \<Rightarrow> int list \<Rightarrow> int list" where
  "withinHour now ts = filter (\<lambda>timestamp. now - timestamp < 3600000) ts"

text \<open>
  Two schedules. In the first, caller 0 is admitted at 100000; callers 1 and 2
  arrive 5 and 6 seconds later, are both suspended until 110000, and resume
  then. In the second, callers 0 to 18 arrive 10 seconds apart from 100000 on;
  callers 19, 20 and 21 arrive 5, 6 and 7 seconds after the last of them and
  resume when their timers expire, at 290000; caller 22 arrives at 300000 and
  resumes when its timer expires, at 3701000.
\<close>

definition overlapTwo :: "(int \<times> nat) list" where
  "overlapTwo = [(100000, 0), (105000, 1), (106000, 2), (110000, 1), (110000, 2)]"

definition overlapQuota :: "(int \<times> nat) list" where
  "overlapQuota =
     map (\<lambda>k. (100000 + 10000 * int k, k)) [0..<19]
     @ [(285000, 19), (286000, 20), (287000, 21), (290000, 19), (290000, 20), (290000, 21),
        (300000, 22), (3701000, 22)]"

text \<open>
  For a caller that runs \<^verbatim>\<open>checkRateLimit\<close> alone: the state when it has passed the
  hourly test and its wait, and the state when it has passed the interval test
  and its wait, just before it records its own timestamp.
\<close>

definition afterHourly :: "('d, 'r) world \<Rightarrow> ('d, 'r) world" where
  "afterHourly w =
     (case rlPrune (emit EvAdmission w) of
        (now, hourly, w1) \<Rightarrow>
          (case hourly of Some waitTime \<Rightarrow> sleep waitTime w1 | None \<Rightarrow> w1))"

definition afterInterval :: "('d, 'r) world \<Rightarrow> ('d, 'r) world" where
  "afterInterval w =
     (case rlInterval (clock w) (afterHourly w) of
        Some waitTime \<Rightarrow> sleep waitTime (afterHourly w)
      | None \<Rightarrow> afterHourly w)"

section \<open>Properties\<close>

subsection \<open>The content cache\<close>

lemma clock_emit [simp]: "clock (emit e w) = clock w"
  by (simp add: emit_def)

lemma contentCache_emit [simp]: "contentCache (emit e w) = contentCache w"
  by (simp add: emit_def)

lemma contentCache_setCachedContent:
  "contentCache (setCachedContent k v w) = (contentCache w)(k \<mapsto> (v, clock w))"
  by (simp add: setCachedContent_def)

lemma clock_setCachedContent [simp]: "clock (setCachedContent k v w) = clock w"
  by (simp add: setCachedContent_def)

lemma contentCache_getCachedContent:
  "contentCache (snd (getCachedContent k w)) = contentCache w"
  by (simp add: getCachedContent_def Let_def split: option.split prod.split)

lemma getCachedContent_fresh:
  "contentCache w k = Some (v, t) \<Longrightarrow> clock w - t < CACHE_TTL \<Longrightarrow>
     fst (getCachedContent k w) = Some v"
  by (simp add: getCachedContent_def Let_def)

lemma getCachedContent_expired:
  "contentCache w k = Some (v, t) \<Longrightarrow> CACHE_TTL \<le> clock w - t \<Longrightarrow>
     fst (getCachedContent k w) = None"
  by (simp add: getCachedContent_def Let_def)

text \<open>
  Claim C7. A \<^verbatim>\<open>setCachedContent(k, v)\<close> immediately followed by
  \<^verbatim>\<open>getCachedContent(k)\<close> returns \<open>v\<close>, and so does a lookup any time less than
  \<open>CACHE_TTL\<close> later; a lookup made once \<open>now - storedAt \<ge> CACHE_TTL\<close> (30 minutes)
  returns absent; a lookup, hit or miss, leaves every entry and its stored time as
  they were (no sliding expiration); and a store replaces whatever entry the key
  had by the new data stamped with the current time.
\<close>

theorem cache_set_get_ttl:
  "fst (getCachedContent k (setCachedContent k v w)) = Some v
   \<and> (int d < CACHE_TTL \<longrightarrow>
        fst (getCachedContent k (tick d (setCachedContent k v w))) = Some v)
   \<and> (contentCache w k = Some (v', t) \<and> CACHE_TTL \<le> clock w - t \<longrightarrow>
        fst (getCachedContent k w) = None)
   \<and> (CACHE_TTL \<le> int d \<longrightarrow>
        fst (getCachedContent k (tick d (setCachedContent k v w))) = None)
   \<and> contentCache (snd (getCachedContent k w)) = contentCache w
   \<and> contentCache (setCachedContent k v w) k = Some (v, clock w)"
proof -
  have stored: "contentCache (setCachedContent k v w) k = Some (v, clock w)"
    by (simp add: contentCache_setCachedContent)
  have later: "contentCache (tick d (setCachedContent k v w)) k = Some (v, clock w)"
    and now: "clock (tick d (setCachedContent k v w)) = clock w + int d" for d
    by (simp_all add: tick_def contentCache_setCachedContent)
  have a: "fst (getCachedContent k (setCachedContent k v w)) = Some v"
    by (rule getCachedContent_fresh [OF stored]) (simp add: CACHE_TTL_def)
  have b: "int d < CACHE_TTL \<longrightarrow>
      fst (getCachedContent k (tick d (setCachedContent k v w))) = Some v"
    by (auto intro!: getCachedContent_fresh [OF later] simp: now)
  have c: "contentCache w k = Some (v', t) \<and> CACHE_TTL \<le> clock w - t \<longrightarrow>
      fst (getCachedContent k w) = None"
    by (auto intro: getCachedContent_expired)
  have d: "CACHE_TTL \<le> int d \<longrightarrow>
      fst (getCachedContent k (tick d (setCachedContent k v w))) = None"
    by (auto intro!: getCachedContent_expired [OF later] simp: now)
  from a b c d stored show ?thesis
    by (simp add: contentCache_getCachedContent)
qed

theorem cache_set_get_ttl_witness:
  "int 5 < CACHE_TTL
   \<and> fst (getCachedContent ''k'' (tick 5 (setCachedContent ''k'' (1::nat) (fresh 0 ())))) = Some 1
   \<and> contentCache (tick 1800000 (setCachedContent ''k'' (7::nat) (fresh 0 ()))) ''k'' = Some (7, 0)
   \<and> CACHE_TTL \<le> clock (tick 1800000 (setCachedContent ''k'' (7::nat) (fresh 0 ()))) - 0
   \<and> fst (getCachedContent ''k'' (tick 1800000 (setCachedContent ''k'' (7::nat) (fresh 0 ())))) = None
   \<and> CACHE_TTL \<le> int 1800000
   \<and> fst (getCachedContent ''k'' (tick 1800000 (setCachedContent ''k'' (1::nat) (fresh 0 ())))) = None"
proof -
  let ?w0 = "fresh 0 () :: (nat, unit) world"
  let ?w1 = "tick 1800000 (setCachedContent ''k'' (7::nat) ?w0)"
  have h1: "int 5 < CACHE_TTL" and h3: "CACHE_TTL \<le> int 1800000"
    by (simp_all add: CACHE_TTL_def)
  have h2: "contentCache ?w1 ''k'' = Some (7, 0) \<and> CACHE_TTL \<le> clock ?w1 - 0"
    by (simp add: tick_def contentCache_setCachedContent fresh_def CACHE_TTL_def)
  from h1 cache_set_get_ttl [where k = "''k''" and v = "1::nat" and w = ?w0 and d = 5]
  have c1: "fst (getCachedContent ''k'' (tick 5 (setCachedContent ''k'' (1::nat) ?w0))) = Some 1"
    by blast
  from h2 cache_set_get_ttl [where k = "''k''" and w = ?w1 and v' = "7::nat" and t = 0]
  have c2: "fst (getCachedContent ''k'' ?w1) = None"
    by blast
  from h3 cache_set_get_ttl [where k = "''k''" and v = "1::nat" and w = ?w0 and d = 1800000]
  have c3: "fst (getCachedContent ''k'' (tick 1800000 (setCachedContent ''k'' (1::nat) ?w0))) = None"
    by blast
  from h1 h2 h3 c1 c2 c3 show ?thesis by blast
qed

subsection \<open>The retry loop\<close>

lemma nthAttempt_Suc:
  "nthAttempt operation name (Suc k) w =
     operation (emit (EvAttempt name (int k + 1)) (beforeAttempt operation name k w))"
  by (simp add: nthAttempt_def add.commute)

lemma retryLoop_all_fail:
  "k < m \<Longrightarrow> (\<forall>n. k < n \<and> n \<le> m \<longrightarrow> isl (fst (nthAttempt operation name n w))) \<Longrightarrow>
   retryLoop operation name (int m) (int k + 1) (beforeAttempt operation name k w)
     = nthAttempt operation name m w"
proof (induction "m - Suc k" arbitrary: k)
  case 0
  then have m: "m = Suc k" by simp
  from 0 m have "isl (fst (nthAttempt operation name (Suc k) w))" by simp
  then obtain e w1 where r: "nthAttempt operation name (Suc k) w = (Inl e, w1)"
    by (cases "nthAttempt operation name (Suc k) w") (auto simp: isl_def)
  show ?case
    using r unfolding m
    by (subst retryLoop.simps) (simp add: nthAttempt_Suc)
next
  case (Suc d)
  then have lt: "Suc k < m" and neq: "int k + 1 \<noteq> int m" by simp_all
  from Suc.prems have "isl (fst (nthAttempt operation name (Suc k) w))" by simp
  then obtain e w1 where r: "nthAttempt operation name (Suc k) w = (Inl e, w1)"
    by (cases "nthAttempt operation name (Suc k) w") (auto simp: isl_def)
  have next_world: "backoff (int k + 1) w1 = beforeAttempt operation name (Suc k) w"
    using r by (simp add: nthAttempt_Suc add.commute)
  have IH: "retryLoop operation name (int m) (int (Suc k) + 1)
              (beforeAttempt operation name (Suc k) w)
     = nthAttempt operation name m w"
    using Suc.hyps(1) [of "Suc k"] Suc.hyps(2) lt Suc.prems(2) by simp
  show ?case
    using r neq Suc.prems(1) IH
    by (subst retryLoop.simps) (simp add: nthAttempt_Suc next_world add.commute)
qed

text \<open>
  Claim C2, as the code has it. When \<open>maxRetries \<ge> 1\<close> and each of the
  \<open>maxRetries\<close> attempts throws, \<^verbatim>\<open>retryWithBackoff\<close> ends exactly as its last
  attempt ended: it throws the very error that attempt threw, unchanged and
  unwrapped, and leaves the state that attempt left. No other error value is
  built on this path.
\<close>

theorem retry_exhausted_rethrows_last_error:
  assumes "1 \<le> m"
    and "\<forall>n\<in>{1..m}. isl (fst (nthAttempt operation name n w))"
  shows "retryWithBackoff operation name (int m) w = nthAttempt operation name m w"
  using retryLoop_all_fail [of 0 m operation name w] assms
  by (simp add: retryWithBackoff_def)

theorem retry_exhausted_rethrows_last_error_witness:
  "1 \<le> (3::nat)
   \<and> isl (fst (nthAttempt (failingThrice :: (nat, nat, nat) operation) ''getNoteContent'' 1 (fresh 0 0)))
   \<and> isl (fst (nthAttempt (failingThrice :: (nat, nat, nat) operation) ''getNoteContent'' 2 (fresh 0 0)))
   \<and> isl (fst (nthAttempt (failingThrice :: (nat, nat, nat) operation) ''getNoteContent'' 3 (fresh 0 0)))
   \<and> retryWithBackoff (failingThrice :: (nat, nat, nat) operation) ''getNoteContent'' (int 3) (fresh 0 0)
       = nthAttempt failingThrice ''getNoteContent'' 3 (fresh 0 0)"
proof -
  let ?op = "failingThrice :: (nat, nat, nat) operation"
  have fails: "isl (fst (nthAttempt ?op ''getNoteContent'' n (fresh 0 0)))" for n
    by (simp add: nthAttempt_def failingThrice_def)
  then have all: "\<forall>n\<in>{1..3}. isl (fst (nthAttempt ?op ''getNoteContent'' n (fresh 0 0)))"
    by blast
  have three: "1 \<le> (3::nat)" by simp
  from retry_exhausted_rethrows_last_error [OF three all] fails three
  show ?thesis by blast
qed

text \<open>
  Claim C2 as the specification words it fails: after three failed attempts the
  caller of \<^verbatim>\<open>retryWithBackoff\<close> holds the raw error of the third attempt.
\<close>

theorem retry_exhausted_counterexample:
  "fst (retryWithBackoff (failingThrice :: (nat, nat, nat) operation) ''getNoteContent'' 3
          (fresh 0 0))
     = Inl (Error ''Page not initialized'')"
  by (simp add: retryWithBackoff_def retryLoop.simps failingThrice_def backoff_def sleep_def
       draw_def emit_def fresh_def Let_def)

subsection \<open>The order of the components in a content operation\<close>

lemma trace_emit [simp]: "trace (emit e w) = trace w @ [e]"
  by (simp add: emit_def)

lemma trace_sleep [simp]: "trace (sleep d w) = trace w @ [EvSleep d]"
  by (simp add: sleep_def draw_def Let_def)

lemma trace_getCachedContent:
  "trace (snd (getCachedContent k w)) = trace w @ [EvCacheLookup k]"
  by (simp add: getCachedContent_def Let_def split: option.split prod.split)

lemma trace_setCachedContent [simp]:
  "trace (setCachedContent k v w) = trace w @ [EvCacheStore k]"
  by (simp add: setCachedContent_def)

lemma onlyStage_Nil [simp]: "onlyStage s []"
  by (simp add: onlyStage_def)

lemma onlyStage_Cons [simp]:
  "onlyStage s (e # es) \<longleftrightarrow> (stageOf e = None \<or> stageOf e = Some s) \<and> onlyStage s es"
  by (simp add: onlyStage_def)

lemma onlyStage_append [simp]:
  "onlyStage s (xs @ ys) \<longleftrightarrow> onlyStage s xs \<and> onlyStage s ys"
  by (auto simp: onlyStage_def)

lemma enter_idem [simp]: "enter s (enter s l) = enter s l"
  by (cases l) auto

lemma phases_append_only:
  "onlyStage s xs \<Longrightarrow>
     phases (xs @ ys) =
       (if \<exists>e\<in>set xs. stageOf e = Some s then enter s (phases ys) else phases ys)"
  by (induction xs) auto

lemma trace_checkRateLimit:
  "\<exists>es. trace (checkRateLimit w) = trace w @ EvAdmission # es \<and> onlyStage AdmissionCheck es"
  by (simp add: checkRateLimit_def rlPrune_def rlRecord_def Let_def split: option.split)

lemma trace_fetchThenCache:
  "\<exists>es. trace (snd (fetchThenCache k fetch w)) = trace w @ es \<and> onlyStage RetryFetch es"
  by (simp add: fetchThenCache_def remoteCall_def Let_def split: prod.split sum.split)

lemma trace_backoff [simp]: "\<exists>d. trace (backoff a w) = trace w @ [EvSleep d]"
  by (simp add: backoff_def draw_def Let_def)

lemma trace_retryLoop:
  "(\<And>w. \<exists>es. trace (snd (operation w)) = trace w @ es \<and> onlyStage RetryFetch es) \<Longrightarrow>
   \<exists>es. trace (snd (retryLoop operation name m a w)) = trace w @ es
            \<and> onlyStage RetryFetch es
            \<and> (a \<le> m \<longrightarrow> (\<exists>es'. es = EvAttempt name a # es'))"
proof (induction operation name m a w rule: retryLoop.induct)
  case (1 operation name m a w)
  note op = "1.prems"
  show ?case
  proof (cases "a \<le> m")
    case False
    then show ?thesis by (subst retryLoop.simps) simp
  next
    case True
    let ?w0 = "emit (EvAttempt name a) w"
    obtain r w1 where r: "operation ?w0 = (r, w1)" by force
    from op [of ?w0] r obtain es1 where
      es1: "trace w1 = trace w @ EvAttempt name a # es1" "onlyStage RetryFetch es1"
      by auto
    show ?thesis
    proof (cases r)
      case (Inr v)
      with True r es1 show ?thesis by (subst retryLoop.simps) simp
    next
      case (Inl e)
      show ?thesis
      proof (cases "a = m")
        case True
        with Inl r es1 show ?thesis by (subst retryLoop.simps) simp
      next
        case False
        obtain d where d: "trace (backoff a w1) = trace w1 @ [EvSleep d]"
          using trace_backoff by blast
        from "1.IH" [OF True r [symmetric] Inl False op]
        obtain es2 where es2:
          "trace (snd (retryLoop operation name m (a + 1) (backoff a w1)))
             = trace (backoff a w1) @ es2" "onlyStage RetryFetch es2"
          by blast
        from True False Inl r es1 d es2 show ?thesis
          by (subst retryLoop.simps) simp
      qed
    qed
  qed
qed

lemma newEvents_append [simp]: "newEvents w (w'\<lparr>trace := trace w @ es\<rparr>) = es"
  by (simp add: newEvents_def)

lemma phases_content_op:
  assumes "trace w' = trace w @ EvCacheLookup k # (EvAdmission # adm) @ (EvAttempt name a # fet)"
    and "onlyStage AdmissionCheck adm" and "onlyStage RetryFetch fet"
  shows "phases (newEvents w w') = [CacheCheck, AdmissionCheck, RetryFetch]"
proof -
  have f: "phases (EvAttempt name a # fet) = [RetryFetch]"
    using phases_append_only [of RetryFetch "EvAttempt name a # fet" "[]"] assms(3) by simp
  have a: "phases ((EvAdmission # adm) @ (EvAttempt name a # fet)) = [AdmissionCheck, RetryFetch]"
    using phases_append_only [of AdmissionCheck "EvAdmission # adm" "EvAttempt name a # fet"]
      assms(2) f by simp
  show ?thesis
    using a by (simp add: newEvents_def assms(1))
qed

lemma content_op_miss:
  assumes "fst (getCachedContent key w) = None"
  shows "phases (newEvents w (snd (retryWithBackoff (fetchThenCache key fetch) name 3
            (checkRateLimit (snd (getCachedContent key w))))))
         = [CacheCheck, AdmissionCheck, RetryFetch]"
proof -
  let ?w1 = "snd (getCachedContent key w)"
  obtain adm where adm: "trace (checkRateLimit ?w1) = trace ?w1 @ EvAdmission # adm"
      "onlyStage AdmissionCheck adm"
    using trace_checkRateLimit by blast
  obtain fet where fet: "trace (snd (retryWithBackoff (fetchThenCache key fetch) name 3
            (checkRateLimit ?w1))) = trace (checkRateLimit ?w1) @ EvAttempt name 1 # fet"
     "onlyStage RetryFetch fet"
    using trace_retryLoop [of "fetchThenCache key fetch" name 3 1 "checkRateLimit ?w1"]
      trace_fetchThenCache [of key fetch]
    unfolding retryWithBackoff_def by auto
  show ?thesis
    by (rule phases_content_op [where adm = adm and fet = fet and a = 1 and name = name and k = key])
       (simp_all add: adm fet trace_getCachedContent)
qed

lemma content_op_hit:
  "phases (newEvents w (snd (getCachedContent key w))) = [CacheCheck]"
  by (simp add: newEvents_def trace_getCachedContent)

lemma content_op_phases:
  "phases (newEvents w (snd (case getCachedContent key w of
       (cached, w1) \<Rightarrow>
         (case cached of
            Some v \<Rightarrow> (Inr v, w1)
          | None \<Rightarrow> retryWithBackoff (fetchThenCache key fetch) name 3 (checkRateLimit w1)))))
   = (if fst (getCachedContent key w) = None
      then [CacheCheck, AdmissionCheck, RetryFetch] else [CacheCheck])"
proof (cases "getCachedContent key w")
  case (Pair cached w1)
  then have eqs: "fst (getCachedContent key w) = cached" "snd (getCachedContent key w) = w1"
    by simp_all
  show ?thesis
  proof (cases cached)
    case None
    with content_op_miss [of key w fetch name] eqs Pair show ?thesis by simp
  next
    case (Some v)
    with content_op_hit [of w key] eqs Pair show ?thesis by simp
  qed
qed

lemma content_op_result:
  "fst (case getCachedContent key w of
       (cached, w1) \<Rightarrow>
         (case cached of
            Some v \<Rightarrow> (Inr v, w1)
          | None \<Rightarrow> retryWithBackoff (fetchThenCache key fetch) name 3 (checkRateLimit w1)))
   = (case fst (getCachedContent key w) of
        Some v \<Rightarrow> Inr v
      | None \<Rightarrow> fst (retryWithBackoff (fetchThenCache key fetch) name 3
                       (checkRateLimit (snd (getCachedContent key w)))))"
  by (cases "getCachedContent key w") (simp split: option.split)

lemma content_op_state:
  "(case fst (getCachedContent key w) of
      Some v \<Rightarrow>
        snd (case getCachedContent key w of
               (cached, w1) \<Rightarrow>
                 (case cached of
                    Some v \<Rightarrow> (Inr v, w1)
                  | None \<Rightarrow> retryWithBackoff (fetchThenCache key fetch) name 3
                              (checkRateLimit w1)))
          = snd (getCachedContent key w)
    | None \<Rightarrow>
        snd (case getCachedContent key w of
               (cached, w1) \<Rightarrow>
                 (case cached of
                    Some v \<Rightarrow> (Inr v, w1)
                  | None \<Rightarrow> retryWithBackoff (fetchThenCache key fetch) name 3
                              (checkRateLimit w1)))
          = snd (retryWithBackoff (fetchThenCache key fetch) name 3
                   (checkRateLimit (snd (getCachedContent key w)))))"
  by (cases "getCachedContent key w") (simp split: option.split)

text \<open>
  Claim C1, as the code has it. In \<^verbatim>\<open>searchNotes\<close>, \<^verbatim>\<open>getNoteContent\<close> and
  \<^verbatim>\<open>getNoteComments\<close> the cache lookup comes first. On a hit the cached value is
  returned and nothing else runs: no admission check, no fetch, and the state is
  the one the lookup left. On a miss the admission check (\<^verbatim>\<open>checkRateLimit\<close>)
  runs next and the retry-wrapped fetch runs after it, and its outcome is the
  outcome of the call: cache check, then admission check, then fetch.
\<close>

theorem content_ops_cache_admission_fetch:
  "phases (newEvents w (snd (searchNotes numberToString keywords limit fetch w)))
     = (if fst (getCachedContent (''search:'' @ keywords @ '':'' @ numberToString limit) w) = None
        then [CacheCheck, AdmissionCheck, RetryFetch] else [CacheCheck])
   \<and> phases (newEvents w (snd (getNoteContent url fetch w)))
     = (if fst (getCachedContent (''note:'' @ url) w) = None
        then [CacheCheck, AdmissionCheck, RetryFetch] else [CacheCheck])
   \<and> phases (newEvents w (snd (getNoteComments url fetch w)))
     = (if fst (getCachedContent (''comments:'' @ url) w) = None
        then [CacheCheck, AdmissionCheck, RetryFetch] else [CacheCheck])
   \<and> fst (getNoteContent url fetch w)
     = (case fst (getCachedContent (''note:'' @ url) w) of
          Some v \<Rightarrow> Inr v
        | None \<Rightarrow> fst (retryWithBackoff (fetchThenCache (''note:'' @ url) fetch)
                         ''getNoteContent'' 3
                         (checkRateLimit (snd (getCachedContent (''note:'' @ url) w)))))
   \<and> fst (searchNotes numberToString keywords limit fetch w)
     = (case fst (getCachedContent
                    (''search:'' @ keywords @ '':'' @ numberToString limit) w) of
          Some v \<Rightarrow> Inr v
        | None \<Rightarrow>
            fst (retryWithBackoff
                   (fetchThenCache (''search:'' @ keywords @ '':'' @ numberToString limit) fetch)
                   ''searchNotes'' 3
                   (checkRateLimit
                      (snd (getCachedContent
                              (''search:'' @ keywords @ '':'' @ numberToString limit) w)))))
   \<and> fst (getNoteComments url fetch w)
     = (case fst (getCachedContent (''comments:'' @ url) w) of
          Some v \<Rightarrow> Inr v
        | None \<Rightarrow> fst (retryWithBackoff (fetchThenCache (''comments:'' @ url) fetch)
                         ''getNoteComments'' 3
                         (checkRateLimit (snd (getCachedContent (''comments:'' @ url) w)))))
   \<and> (case fst (getCachedContent (''search:'' @ keywords @ '':'' @ numberToString limit) w) of
         Some v \<Rightarrow>
           snd (searchNotes numberToString keywords limit fetch w)
             = snd (getCachedContent (''search:'' @ keywords @ '':'' @ numberToString limit) w)
       | None \<Rightarrow>
           snd (searchNotes numberToString keywords limit fetch w)
             = snd (retryWithBackoff
                      (fetchThenCache (''search:'' @ keywords @ '':'' @ numberToString limit) fetch)
                      ''searchNotes'' 3
                      (checkRateLimit
                         (snd (getCachedContent
                                 (''search:'' @ keywords @ '':'' @ numberToString limit) w)))))
   \<and> (case fst (getCachedContent (''note:'' @ url) w) of
         Some v \<Rightarrow>
           snd (getNoteContent url fetch w) = snd (getCachedContent (''note:'' @ url) w)
       | None \<Rightarrow>
           snd (getNoteContent url fetch w)
             = snd (retryWithBackoff (fetchThenCache (''note:'' @ url) fetch)
                      ''getNoteContent'' 3
                      (checkRateLimit (snd (getCachedContent (''note:'' @ url) w)))))
   \<and> (case fst (getCachedContent (''comments:'' @ url) w) of
         Some v \<Rightarrow>
           snd (getNoteComments url fetch w) = snd (getCachedContent (''comments:'' @ url) w)
       | None \<Rightarrow>
           snd (getNoteComments url fetch w)
             = snd (retryWithBackoff (fetchThenCache (''comments:'' @ url) fetch)
                      ''getNoteComments'' 3
                      (checkRateLimit (snd (getCachedContent (''comments:'' @ url) w)))))"
  unfolding searchNotes_def getNoteContent_def getNoteComments_def Let_def
  by (intro conjI content_op_phases content_op_result content_op_state)

text \<open>
  Claim C1 as the specification words it (admission check, then cache check, then
  fetch) fails. A first \<^verbatim>\<open>getNoteContent\<close> in a fresh process looks the cache up
  before it enters \<^verbatim>\<open>checkRateLimit\<close>; a second one for the same URL is answered
  from the cache and never enters \<^verbatim>\<open>checkRateLimit\<close>.
\<close>

theorem admission_before_cache_counterexample:
  "trace (snd (getNoteContent ''u'' (\<lambda>r. (Inr (7::nat), r)) (fresh 100000 ())))
     = [EvCacheLookup ''note:u'', EvAdmission, EvGranted 100000,
        EvAttempt ''getNoteContent'' 1, EvRemote, EvCacheStore ''note:u'']
   \<and> phases (trace (snd (getNoteContent ''u'' (\<lambda>r. (Inr (7::nat), r)) (fresh 100000 ()))))
     \<noteq> [AdmissionCheck, CacheCheck, RetryFetch]
   \<and> newEvents (snd (getNoteContent ''u'' (\<lambda>r. (Inr (7::nat), r)) (fresh 100000 ())))
       (snd (getNoteContent ''u'' (\<lambda>r. (Inr (8::nat), r))
          (snd (getNoteContent ''u'' (\<lambda>r. (Inr (7::nat), r)) (fresh 100000 ())))))
     = [EvCacheLookup ''note:u'']"
  by (simp add: getNoteContent_def getCachedContent_def checkRateLimit_def rlPrune_def
        rlInterval_def rlRecord_def retryWithBackoff_def retryLoop.simps fetchThenCache_def
        remoteCall_def setCachedContent_def emit_def fresh_def Let_def newEvents_def
        MIN_INTERVAL_def MAX_REQUESTS_PER_HOUR_def CACHE_TTL_def)

subsection \<open>\<^verbatim>\<open>publishNote\<close> validates first\<close>

lemma trim_empty_iff: "trim s = [] \<longleftrightarrow> blank s"
proof
  assume "trim s = []"
  then have all: "\<forall>x\<in>set (dropWhile isWhiteSpace s). isWhiteSpace x"
    by (simp add: trim_def)
  have "dropWhile isWhiteSpace s = []"
  proof (rule ccontr)
    assume ne: "dropWhile isWhiteSpace s \<noteq> []"
    then have "\<not> isWhiteSpace (hd (dropWhile isWhiteSpace s))" by (rule hd_dropWhile)
    moreover from ne have "hd (dropWhile isWhiteSpace s) \<in> set (dropWhile isWhiteSpace s)"
      by simp
    ultimately show False using all by blast
  qed
  then show "blank s" by (simp add: blank_def)
next
  assume "blank s"
  then have d: "dropWhile isWhiteSpace s = []" by (simp add: blank_def)
  show "trim s = []" by (simp only: trim_def d rev.simps dropWhile.simps)
qed

lemma trim_blank: "blank s \<Longrightarrow> trim s = []"
  by (simp add: trim_empty_iff)

lemma validateLoop_bad:
  "\<exists>imagePath\<in>set imagePaths. badImage fs imagePath \<Longrightarrow>
     \<exists>e. validateLoop fs imagePaths acc = Inl e"
  by (induction imagePaths arbitrary: acc) (auto simp: badImage_def Let_def)

lemma validateLoop_length:
  "validateLoop fs imagePaths acc = Inr validPaths \<Longrightarrow>
     length validPaths = length acc + length imagePaths"
  by (induction imagePaths arbitrary: acc) (auto simp: Let_def split: if_splits)

lemma validateImagePaths_bad:
  "\<exists>imagePath\<in>set imagePaths. badImage fs imagePath \<Longrightarrow>
     \<exists>e. validateImagePaths fs imagePaths = Inl e"
  using validateLoop_bad [of imagePaths fs "[]"] by (auto simp: validateImagePaths_def)

lemma validateImagePaths_many:
  "18 < length imagePaths \<Longrightarrow> \<exists>e. validateImagePaths fs imagePaths = Inl e"
  using validateLoop_length [of fs imagePaths "[]"]
  by (auto simp: validateImagePaths_def split: sum.split)

text \<open>
  Claim C10. \<^verbatim>\<open>publishNote\<close> throws, and leaves the state exactly as it found it
  (no rate-limit wait, no attempt of the retry loop, no browser interaction, no
  pause), whenever the title is empty or white space, the content is empty or
  white space, the list of images is empty, some image path does not exist, is not
  a regular file or has an extension outside jpg, jpeg, png, gif and webp, or
  more than 18 images are supplied. The extension is what the code takes for it:
  what follows the last dot of the path put in lower case (the whole path when it
  has no dot).
\<close>

theorem publishNote_validates_first:
  assumes "invalidInput fs title content imagePaths"
  shows "\<exists>e. publishNote fs publish title content imagePaths tags w = (Inl e, w)"
proof -
  consider "blank title" | "blank content" | "imagePaths = []"
    | "\<exists>imagePath\<in>set imagePaths. badImage fs imagePath" | "18 < length imagePaths"
    using assms by (auto simp: invalidInput_def)
  then show ?thesis
  proof cases
    case 1
    then show ?thesis by (simp add: publishNote_def trim_blank)
  next
    case 2
    then show ?thesis by (simp add: publishNote_def trim_blank)
  next
    case 3
    then show ?thesis by (simp add: publishNote_def)
  next
    case 4
    then obtain e where "validateImagePaths fs imagePaths = Inl e"
      using validateImagePaths_bad by blast
    then show ?thesis by (simp add: publishNote_def)
  next
    case 5
    then obtain e where "validateImagePaths fs imagePaths = Inl e"
      using validateImagePaths_many by blast
    then show ?thesis by (simp add: publishNote_def)
  qed
qed

theorem publishNote_validates_first_witness:
  "invalidInput exampleFs ''  '' ''text'' [''/img/a.png'']
   \<and> (\<exists>e. publishNote exampleFs (\<lambda>_ _ _ _ r. (Inr (), r)) ''  '' ''text'' [''/img/a.png''] '''' (fresh 100000 () :: (nat, unit) world)
          = (Inl e, fresh 100000 ()))
   \<and> invalidInput exampleFs ''title'' [CHR 0x09, CHR 0x0A] [''/img/a.png'']
   \<and> (\<exists>e. publishNote exampleFs (\<lambda>_ _ _ _ r. (Inr (), r)) ''title'' [CHR 0x09, CHR 0x0A] [''/img/a.png''] '''' (fresh 100000 () :: (nat, unit) world)
          = (Inl e, fresh 100000 ()))
   \<and> invalidInput exampleFs ''title'' ''text'' []
   \<and> (\<exists>e. publishNote exampleFs (\<lambda>_ _ _ _ r. (Inr (), r)) ''title'' ''text'' [] '''' (fresh 100000 () :: (nat, unit) world)
          = (Inl e, fresh 100000 ()))
   \<and> invalidInput exampleFs ''title'' ''text'' [''/img/a.png'', ''/img/missing.png'']
   \<and> (\<exists>e. publishNote exampleFs (\<lambda>_ _ _ _ r. (Inr (), r)) ''title'' ''text'' [''/img/a.png'', ''/img/missing.png''] '''' (fresh 100000 () :: (nat, unit) world)
          = (Inl e, fresh 100000 ()))
   \<and> invalidInput exampleFs ''title'' ''text'' [''/img/d.png'']
   \<and> (\<exists>e. publishNote exampleFs (\<lambda>_ _ _ _ r. (Inr (), r)) ''title'' ''text'' [''/img/d.png''] '''' (fresh 100000 () :: (nat, unit) world)
          = (Inl e, fresh 100000 ()))
   \<and> invalidInput exampleFs ''title'' ''text'' [''/img/a.bmp'']
   \<and> (\<exists>e. publishNote exampleFs (\<lambda>_ _ _ _ r. (Inr (), r)) ''title'' ''text'' [''/img/a.bmp''] '''' (fresh 100000 () :: (nat, unit) world)
          = (Inl e, fresh 100000 ()))
   \<and> invalidInput exampleFs ''title'' ''text'' (replicate 19 ''/img/a.png'')
   \<and> (\<exists>e. publishNote exampleFs (\<lambda>_ _ _ _ r. (Inr (), r)) ''title'' ''text'' (replicate 19 ''/img/a.png'') '''' (fresh 100000 () :: (nat, unit) world)
          = (Inl e, fresh 100000 ()))"
proof -
  have h1: "invalidInput exampleFs ''  '' ''text'' [''/img/a.png'']"
    by (simp add: invalidInput_def blank_def isWhiteSpace_def)
  have h2: "invalidInput exampleFs ''title'' [CHR 0x09, CHR 0x0A] [''/img/a.png'']"
    by (simp add: invalidInput_def blank_def isWhiteSpace_def)
  have h3: "invalidInput exampleFs ''title'' ''text'' []"
    by (simp add: invalidInput_def)
  have h4: "invalidInput exampleFs ''title'' ''text'' [''/img/a.png'', ''/img/missing.png'']"
    by (simp add: invalidInput_def badImage_def existsSync_def exampleFs_def)
  have h5: "invalidInput exampleFs ''title'' ''text'' [''/img/d.png'']"
    by (simp add: invalidInput_def badImage_def existsSync_def isFile_def exampleFs_def)
  have h6: "invalidInput exampleFs ''title'' ''text'' [''/img/a.bmp'']"
    by (simp add: invalidInput_def badImage_def extensionOf_def toLowerCase_def lowerChar_def
        allowedExtensions_def)
  have h7: "invalidInput exampleFs ''title'' ''text'' (replicate 19 ''/img/a.png'')"
    by (simp add: invalidInput_def)
  show ?thesis
    using h1 h2 h3 h4 h5 h6 h7
      publishNote_validates_first [OF h1, where publish = "\<lambda>_ _ _ _ r. (Inr (), r)"
        and tags = "''''" and w = "fresh 100000 () :: (nat, unit) world"]
      publishNote_validates_first [OF h2, where publish = "\<lambda>_ _ _ _ r. (Inr (), r)"
        and tags = "''''" and w = "fresh 100000 () :: (nat, unit) world"]
      publishNote_validates_first [OF h3, where publish = "\<lambda>_ _ _ _ r. (Inr (), r)"
        and tags = "''''" and w = "fresh 100000 () :: (nat, unit) world"]
      publishNote_validates_first [OF h4, where publish = "\<lambda>_ _ _ _ r. (Inr (), r)"
        and tags = "''''" and w = "fresh 100000 () :: (nat, unit) world"]
      publishNote_validates_first [OF h5, where publish = "\<lambda>_ _ _ _ r. (Inr (), r)"
        and tags = "''''" and w = "fresh 100000 () :: (nat, unit) world"]
      publishNote_validates_first [OF h6, where publish = "\<lambda>_ _ _ _ r. (Inr (), r)"
        and tags = "''''" and w = "fresh 100000 () :: (nat, unit) world"]
      publishNote_validates_first [OF h7, where publish = "\<lambda>_ _ _ _ r. (Inr (), r)"
        and tags = "''''" and w = "fresh 100000 () :: (nat, unit) world"]
    by blast
qed

subsection \<open>The first strategy that yields items wins\<close>

lemma firstNonEmpty_yields: "firstNonEmpty q xs = Some items \<Longrightarrow> items \<noteq> []"
  by (induction xs) (auto simp: Let_def split: if_splits)

lemma strategyLoop_first:
  "k < length ss \<Longrightarrow> (ss ! k) page = Inr found \<Longrightarrow> yields found \<Longrightarrow>
   (\<forall>j<k. \<exists>r. (ss ! j) page = Inr r \<and> \<not> yields r) \<Longrightarrow>
     strategyLoop ss page i items called
       = Inr (found, i + k + 1, called @ map (\<lambda>j. i + j + 1) [0..<Suc k])"
proof (induction ss arbitrary: k i items called)
  case Nil
  then show ?case by simp
next
  case (Cons s ss)
  show ?case
  proof (cases k)
    case 0
    with Cons.prems show ?thesis by (simp add: Let_def)
  next
    case (Suc k')
    with Cons.prems obtain r where first: "s page = Inr r" "\<not> yields r" by auto
    from Suc Cons.prems have
      "strategyLoop ss page (i + 1) r (called @ [i + 1])
         = Inr (found, (i + 1) + k' + 1,
                (called @ [i + 1]) @ map (\<lambda>j. (i + 1) + j + 1) [0..<Suc k'])"
      by (intro Cons.IH) auto
    moreover have "map (\<lambda>j. i + j + 1) [0..<Suc (Suc k')]
        = (i + 1) # map (\<lambda>j. (i + 1) + j + 1) [0..<Suc k']"
      by (simp add: upt_conv_Cons map_Suc_upt [symmetric] del: upt_Suc)
    ultimately show ?thesis
      using first Suc by (simp add: Let_def del: upt_Suc)
  qed
qed

lemma strategyLoop_throws:
  "k < length ss \<Longrightarrow> (ss ! k) page = Inl e \<Longrightarrow>
   (\<forall>j<k. \<exists>r. (ss ! j) page = Inr r \<and> \<not> yields r) \<Longrightarrow>
     strategyLoop ss page i items called = Inl e"
proof (induction ss arbitrary: k i items called)
  case Nil
  then show ?case by simp
next
  case (Cons s ss)
  show ?case
  proof (cases k)
    case 0
    with Cons.prems show ?thesis by simp
  next
    case (Suc k')
    with Cons.prems obtain r where first: "s page = Inr r" "\<not> yields r" by auto
    from Suc Cons.prems have "strategyLoop ss page (i + 1) r (called @ [i + 1]) = Inl e"
      by (intro Cons.IH) auto
    with first show ?thesis by (simp add: Let_def)
  qed
qed

lemma strategy1_yields:
  assumes "strategy1 page = Some items"
  shows "yields (strategy1 page)"
proof -
  from assms have "items \<noteq> []"
    unfolding strategy1_def Let_def by (rule firstNonEmpty_yields)
  with assms show ?thesis by (simp add: yields_def)
qed

lemma strategy2_yields:
  assumes "strategy2 page = Some items"
  shows "yields (strategy2 page)"
proof -
  from assms obtain selectors where
    "firstNonEmpty (querySelectorAll page) selectors = Some items"
    unfolding strategy2_def Let_def by blast
  then have "items \<noteq> []" by (rule firstNonEmpty_yields)
  with assms show ?thesis by (simp add: yields_def)
qed

lemma strategy3_yields:
  assumes "strategy3 page = Inr (Some items)"
  shows "yields (Some items)"
  using assms by (auto simp: strategy3_def yields_def Let_def split: sum.splits if_splits)

lemma findCommentItems_first:
  assumes "strategy1 page = Some items"
  shows "findCommentItems page = Inr (Some items, 1, [1])"
  using strategy1_yields [OF assms] assms
  by (simp add: findCommentItems_def strategies_def Let_def)

lemma findCommentItems_second:
  assumes "\<not> yields (strategy1 page)" and "strategy2 page = Some items"
  shows "findCommentItems page = Inr (Some items, 2, [1, 2])"
  using strategy2_yields [OF assms(2)] assms
  by (simp add: findCommentItems_def strategies_def Let_def)

lemma findCommentItems_third:
  assumes "\<not> yields (strategy1 page)" and "\<not> yields (strategy2 page)"
    and "strategy3 page = Inr (Some items)"
  shows "findCommentItems page = Inr (Some items, 3, [1, 2, 3])"
  using strategy3_yields [OF assms(3)] assms
  by (simp add: findCommentItems_def strategies_def Let_def)

lemma findCommentItems_throws:
  assumes "\<not> yields (strategy1 page)" and "\<not> yields (strategy2 page)"
    and "strategy3 page = Inl e"
  shows "findCommentItems page = Inl e"
  using assms by (simp add: findCommentItems_def strategies_def Let_def)

text \<open>
  Claim C8. The loop calls the strategies in the order of the list and stops at
  the first one that yields at least one item: its items are the result, exactly
  as that strategy returned them, and the strategies after it are not called. In
  particular, on a page where strategy 1 finds nothing and strategy 2 finds
  items, the comments are read from the items of strategy 2 alone and strategy 3
  is never called, whatever it would have found or thrown. Likewise the items
  of strategy 1 are the result when it finds some, and those of strategy 3 when
  the first two find nothing and it returns some; when the first two find
  nothing and strategy 3 throws, the whole extraction throws that error.
\<close>

theorem first_yielding_strategy_wins:
  "(k < length ss \<and> (ss ! k) page = Inr found \<and> yields found
      \<and> (\<forall>j<k. \<exists>r. (ss ! j) page = Inr r \<and> \<not> yields r)
      \<longrightarrow> strategyLoop ss page 0 None [] = Inr (found, k + 1, map Suc [0..<Suc k]))
   \<and> (\<not> yields (strategy1 page) \<and> strategy2 page = Some items
      \<longrightarrow> findCommentItems page = Inr (Some items, 2, [1, 2])
          \<and> extractComments extractItem page = Inr (List.map_filter (extractItem page) items))
   \<and> (strategy1 page = Some items
      \<longrightarrow> findCommentItems page = Inr (Some items, 1, [1])
          \<and> extractComments extractItem page = Inr (List.map_filter (extractItem page) items))
   \<and> (\<not> yields (strategy1 page) \<and> \<not> yields (strategy2 page)
        \<and> strategy3 page = Inr (Some items)
      \<longrightarrow> findCommentItems page = Inr (Some items, 3, [1, 2, 3])
          \<and> extractComments extractItem page = Inr (List.map_filter (extractItem page) items))
   \<and> (\<not> yields (strategy1 page) \<and> \<not> yields (strategy2 page) \<and> strategy3 page = Inl e
      \<longrightarrow> findCommentItems page = Inl e \<and> extractComments extractItem page = Inl e)"
proof (intro conjI impI)
  assume "k < length ss \<and> (ss ! k) page = Inr found \<and> yields found
      \<and> (\<forall>j<k. \<exists>r. (ss ! j) page = Inr r \<and> \<not> yields r)"
  then show "strategyLoop ss page 0 None [] = Inr (found, k + 1, map Suc [0..<Suc k])"
    using strategyLoop_first [of k ss page found 0 None "[]"] by simp
next
  assume a: "\<not> yields (strategy1 page) \<and> strategy2 page = Some items"
  then show found: "findCommentItems page = Inr (Some items, 2, [1, 2])"
    by (simp add: findCommentItems_second)
  from a have "yields (Some items)"
    using strategy2_yields [of page items] by simp
  with found show "extractComments extractItem page
      = Inr (List.map_filter (extractItem page) items)"
    by (simp add: extractComments_def)
next
  assume a: "strategy1 page = Some items"
  then show found: "findCommentItems page = Inr (Some items, 1, [1])"
    by (rule findCommentItems_first)
  from a have "yields (Some items)"
    using strategy1_yields [of page items] by simp
  with found show "extractComments extractItem page
      = Inr (List.map_filter (extractItem page) items)"
    by (simp add: extractComments_def)
next
  assume a: "\<not> yields (strategy1 page) \<and> \<not> yields (strategy2 page)
        \<and> strategy3 page = Inr (Some items)"
  then show found: "findCommentItems page = Inr (Some items, 3, [1, 2, 3])"
    by (simp add: findCommentItems_third)
  from a have "yields (Some items)"
    using strategy3_yields [of page items] by simp
  with found show "extractComments extractItem page
      = Inr (List.map_filter (extractItem page) items)"
    by (simp add: extractComments_def)
next
  assume a: "\<not> yields (strategy1 page) \<and> \<not> yields (strategy2 page) \<and> strategy3 page = Inl e"
  then show thrown: "findCommentItems page = Inl e"
    by (simp add: findCommentItems_throws)
  then show "extractComments extractItem page = Inl e"
    by (simp add: extractComments_def)
qed

theorem first_yielding_strategy_wins_witness:
  "(1::nat) < length (strategies :: (nat page \<Rightarrow> error + nat list option) list)
   \<and> (strategies ! 1) examplePage = Inr (Some [1, 2])
   \<and> yields (Some [1, 2 :: nat])
   \<and> (strategies ! 0) examplePage = Inr None
   \<and> \<not> yields (None :: nat list option)
   \<and> strategyLoop strategies examplePage 0 None [] = Inr (Some [1, 2], 2, [1, 2])
   \<and> \<not> yields (strategy1 examplePage)
   \<and> strategy2 examplePage = Some [1, 2]
   \<and> strategy3 examplePage = Inl (TypeError ''classList.includes is not a function'')
   \<and> findCommentItems examplePage = Inr (Some [1, 2], 2, [1, 2])
   \<and> extractComments (\<lambda>page element. Some (dataTestid page element @ ''#'')) examplePage
       = Inr [''#'', ''#'']
   \<and> strategy1 dialogPage = Some [1, 2]
   \<and> findCommentItems dialogPage = Inr (Some [1, 2], 1, [1])
   \<and> \<not> yields (strategy1 plainPage) \<and> \<not> yields (strategy2 plainPage)
   \<and> strategy3 plainPage = Inr (Some [0, 1, 2])
   \<and> findCommentItems plainPage = Inr (Some [0, 1, 2], 3, [1, 2, 3])
   \<and> \<not> yields (strategy1 svgPage) \<and> \<not> yields (strategy2 svgPage)
   \<and> strategy3 svgPage = Inl (TypeError ''classList.includes is not a function'')
   \<and> extractComments (\<lambda>page element. Some (dataTestid page element @ ''#'')) svgPage
       = Inl (TypeError ''classList.includes is not a function'')"
proof -
  let ?ex = "\<lambda>page element. Some (dataTestid (page :: nat page) element @ ''#'')"
  let ?te = "TypeError ''classList.includes is not a function''"
  have s1: "strategy1 examplePage = None" and s2: "strategy2 examplePage = Some [1, 2]"
    and s3: "strategy3 examplePage = Inl ?te"
    by (simp_all add: strategy1_def strategy2_def strategy3_def examplePage_def attr_def Let_def)
  have d1: "strategy1 dialogPage = Some [1, 2]"
    by (simp add: strategy1_def dialogPage_def examplePage_def attr_def Let_def)
  have p1: "strategy1 plainPage = None" and p2: "strategy2 plainPage = None"
    and p3: "strategy3 plainPage = Inr (Some [0, 1, 2])"
    by (simp_all add: strategy1_def strategy2_def strategy3_def plainPage_def examplePage_def
          attr_def Let_def)
  have v1: "strategy1 svgPage = None" and v2: "strategy2 svgPage = None"
    and v3: "strategy3 svgPage = Inl ?te"
    by (simp_all add: strategy1_def strategy2_def strategy3_def svgPage_def examplePage_def
          attr_def Let_def)
  have len: "(1::nat) < length (strategies :: (nat page \<Rightarrow> error + nat list option) list)"
    by (simp add: strategies_def)
  have at0: "(strategies ! 0) examplePage = Inr None"
    and at1: "(strategies ! 1) examplePage = Inr (Some [1, 2])"
    by (simp_all add: strategies_def s1 s2)
  have y: "yields (Some [1, 2 :: nat])" and n: "\<not> yields (None :: nat list option)"
    by (simp_all add: yields_def)
  have before: "\<forall>j<1. \<exists>r. ((strategies :: (nat page \<Rightarrow> error + nat list option) list) ! j)
                              examplePage = Inr r \<and> \<not> yields r"
    using at0 n by simp
  note general = first_yielding_strategy_wins [where k = 1 and ss = strategies
      and page = examplePage and found = "Some [1, 2]" and items = "[1, 2]" and extractItem = ?ex]
  from general len at1 y before
  have a: "strategyLoop strategies examplePage 0 None [] = Inr (Some [1, 2], 2, [1, 2])"
    by simp
  have e1: "\<not> yields (strategy1 examplePage)"
    and q1: "\<not> yields (strategy1 plainPage)" and q2: "\<not> yields (strategy2 plainPage)"
    and u1: "\<not> yields (strategy1 svgPage)" and u2: "\<not> yields (strategy2 svgPage)"
    by (simp_all add: s1 p1 p2 v1 v2 yields_def)
  from general e1 s2
  have b: "findCommentItems examplePage = Inr (Some [1, 2], 2, [1, 2])"
    and c: "extractComments ?ex examplePage = Inr (List.map_filter (?ex examplePage) [1, 2])"
    by blast+
  have c': "List.map_filter (?ex examplePage) [1, 2] = [''#'', ''#'']"
    by (simp add: List.map_filter_def examplePage_def)
  from first_yielding_strategy_wins [where k = 0 and ss = "[]" and found = None and e = ?te
      and extractItem = ?ex and page = dialogPage and items = "[1, 2]"] d1
  have d: "findCommentItems dialogPage = Inr (Some [1, 2], 1, [1])"
    by blast
  from first_yielding_strategy_wins [where k = 0 and ss = "[]" and found = None and e = ?te
      and extractItem = ?ex and page = plainPage and items = "[0, 1, 2]"] q1 q2 p3
  have p: "findCommentItems plainPage = Inr (Some [0, 1, 2], 3, [1, 2, 3])"
    by blast
  from first_yielding_strategy_wins [where k = 0 and ss = "[]" and found = None and e = ?te
      and extractItem = ?ex and page = svgPage and items = "[]"] u1 u2 v3
  have v: "extractComments ?ex svgPage = Inl ?te"
    by blast
  from len at0 at1 y n a e1 s2 s3 b c c' d1 d q1 q2 p3 p u1 u2 v3 v show ?thesis by simp
qed

subsection \<open>\<^verbatim>\<open>AuthManager.getBrowser\<close>\<close>

lemma isBrowserValid_not_empty: "isBrowserValid env s \<Longrightarrow> browserInstance s \<noteq> None"
  by (auto simp: isBrowserValid_def split: option.splits)

lemma isBrowserValid_held:
  "browserInstance s = Some old \<Longrightarrow>
     isBrowserValid env s \<longleftrightarrow> isConnected env old \<and> authClock s - lastUsed s \<le> BROWSER_TIMEOUT"
  by (auto simp: isBrowserValid_def Let_def)

lemma getBrowser_invalid:
  assumes "browserInstance s = Some old"
    and "\<not> isConnected env old \<or> BROWSER_TIMEOUT < authClock s - lastUsed s"
  shows "fst (getBrowser env s) = launchResult env"
    and "authLog (snd (getBrowser env s))
           = authLog s @ EvClose old
               # (case closeThrows env old of Some e \<Rightarrow> [EvCloseErrorLogged e] | None \<Rightarrow> [])
               @ [EvLaunch]"
    and "browserInstance (snd (getBrowser env s))
           = (case launchResult env of Inr b \<Rightarrow> Some b | Inl e \<Rightarrow> None)"
    and "\<not> isl (launchResult env) \<longrightarrow>
           lastUsed (snd (getBrowser env s)) = authClock (snd (getBrowser env s))"
proof -
  from assms have invalid: "\<not> isBrowserValid env s"
    by (auto simp: isBrowserValid_held)
  show "fst (getBrowser env s) = launchResult env"
    using invalid by (simp add: getBrowser_def Let_def split: sum.split)
  show "authLog (snd (getBrowser env s))
           = authLog s @ EvClose old
               # (case closeThrows env old of Some e \<Rightarrow> [EvCloseErrorLogged e] | None \<Rightarrow> [])
               @ [EvLaunch]"
    using invalid assms(1)
    by (simp add: getBrowser_def cleanupBrowserInstance_def Let_def split: sum.split option.split)
  show "browserInstance (snd (getBrowser env s))
           = (case launchResult env of Inr b \<Rightarrow> Some b | Inl e \<Rightarrow> None)"
    using invalid assms(1)
    by (simp add: getBrowser_def cleanupBrowserInstance_def Let_def split: sum.split option.split)
  show "\<not> isl (launchResult env) \<longrightarrow>
           lastUsed (snd (getBrowser env s)) = authClock (snd (getBrowser env s))"
    using invalid
    by (simp add: getBrowser_def Let_def split: sum.split)
qed

text \<open>
  Claim C9. With a browser \<open>old\<close> held: when it reports that it is disconnected
  or has not been used for more than \<open>BROWSER_TIMEOUT\<close> (30 minutes),
  \<^verbatim>\<open>getBrowser\<close> closes it, logs the error of \<^verbatim>\<open>close()\<close> if there is one without
  passing it on, clears the static field whether \<^verbatim>\<open>close()\<close> failed or not, then
  launches a browser; what it returns is what the launch returned, and a
  launched browser becomes the held one with the time of use set to the current
  time. Otherwise \<^verbatim>\<open>getBrowser\<close> returns \<open>old\<close>, closes and launches nothing, and
  sets the time of use to the current time.
\<close>

theorem getBrowser_teardown_or_reuse:
  assumes "browserInstance s = Some old"
  shows "(\<not> isConnected env old \<or> BROWSER_TIMEOUT < authClock s - lastUsed s \<longrightarrow>
            fst (getBrowser env s) = launchResult env
            \<and> authLog (snd (getBrowser env s))
                = authLog s @ EvClose old
                    # (case closeThrows env old of
                         Some e \<Rightarrow> [EvCloseErrorLogged e] | None \<Rightarrow> [])
                    @ [EvLaunch]
            \<and> browserInstance (cleanupBrowserInstance env s) = None
            \<and> browserInstance (snd (getBrowser env s))
                = (case launchResult env of Inr b \<Rightarrow> Some b | Inl e \<Rightarrow> None)
            \<and> (\<not> isl (launchResult env) \<longrightarrow>
                  lastUsed (snd (getBrowser env s)) = authClock (snd (getBrowser env s))))
       \<and> (isConnected env old \<and> authClock s - lastUsed s \<le> BROWSER_TIMEOUT \<longrightarrow>
            getBrowser env s = (Inr old, s\<lparr>lastUsed := authClock s\<rparr>))"
proof (intro conjI impI)
  assume "isConnected env old \<and> authClock s - lastUsed s \<le> BROWSER_TIMEOUT"
  with assms show "getBrowser env s = (Inr old, s\<lparr>lastUsed := authClock s\<rparr>)"
    by (simp add: getBrowser_def isBrowserValid_held)
next
  show "browserInstance (cleanupBrowserInstance env s) = None"
    using assms by (simp add: cleanupBrowserInstance_def Let_def split: option.split)
qed (use assms getBrowser_invalid [of s old env] in blast)+

theorem getBrowser_teardown_or_reuse_witness:
  "browserInstance (holding 1 0 5000) = Some 1
   \<and> \<not> isConnected brokenDriver 1
   \<and> getBrowser brokenDriver (holding 1 0 5000)
       = (Inr 2, \<lparr>browserInstance = Some 2, lastUsed = 5940, authClock = 5940,
                  authLog = [EvClose 1, EvCloseErrorLogged (Error ''Target closed''), EvLaunch]\<rparr>)
   \<and> BROWSER_TIMEOUT < authClock (holding 1 0 1800001) - lastUsed (holding 1 0 1800001)
   \<and> fst (getBrowser healthyDriver (holding 1 0 1800001)) = Inr 2
   \<and> isConnected healthyDriver 1
   \<and> authClock (holding 1 0 1800000) - lastUsed (holding 1 0 1800000) \<le> BROWSER_TIMEOUT
   \<and> getBrowser healthyDriver (holding 1 0 1800000)
       = (Inr 1, \<lparr>browserInstance = Some 1, lastUsed = 1800000, authClock = 1800000,
                  authLog = []\<rparr>)"
proof -
  have held: "browserInstance (holding 1 u n) = Some 1" for u n
    by (simp add: holding_def)
  have h1: "\<not> isConnected brokenDriver 1" by (simp add: brokenDriver_def)
  have h2: "BROWSER_TIMEOUT < authClock (holding 1 0 1800001) - lastUsed (holding 1 0 1800001)"
    by (simp add: holding_def BROWSER_TIMEOUT_def)
  have h3: "isConnected healthyDriver 1"
    and h4: "authClock (holding 1 0 1800000) - lastUsed (holding 1 0 1800000) \<le> BROWSER_TIMEOUT"
    by (simp_all add: healthyDriver_def holding_def BROWSER_TIMEOUT_def)
  from getBrowser_teardown_or_reuse [OF held, of brokenDriver 0 5000] h1
  have a: "fst (getBrowser brokenDriver (holding 1 0 5000)) = launchResult brokenDriver"
    by blast
  have a': "getBrowser brokenDriver (holding 1 0 5000)
       = (Inr 2, \<lparr>browserInstance = Some 2, lastUsed = 5940, authClock = 5940,
                  authLog = [EvClose 1, EvCloseErrorLogged (Error ''Target closed''), EvLaunch]\<rparr>)"
    by (simp add: getBrowser_def isBrowserValid_def cleanupBrowserInstance_def holding_def
          brokenDriver_def Let_def)
  from getBrowser_teardown_or_reuse [OF held, of healthyDriver 0 1800001] h2
  have b: "fst (getBrowser healthyDriver (holding 1 0 1800001)) = Inr 2"
    by (simp add: healthyDriver_def)
  from getBrowser_teardown_or_reuse [OF held, of healthyDriver 0 1800000] h3 h4
  have c: "getBrowser healthyDriver (holding 1 0 1800000)
       = (Inr 1, \<lparr>browserInstance = Some 1, lastUsed = 1800000, authClock = 1800000,
                  authLog = []\<rparr>)"
    by (simp add: holding_def)
  from held h1 a' h2 b h3 h4 c show ?thesis by blast
qed


subsection \<open>\<^verbatim>\<open>getRedNoteTools\<close>: one instance for all callers\<close>

lemma length_filter_update:
  "i < length xs \<Longrightarrow>
     length (filter P (xs[i := c])) + (if P (xs ! i) then 1 else 0)
       = length (filter P xs) + (if P c then 1 else 0)"
proof (induction xs arbitrary: i)
  case Nil
  then show ?case by simp
next
  case (Cons x xs)
  then show ?case by (cases i) auto
qed

lemma not_in_set_update:
  "a \<notin> set xs \<Longrightarrow> c \<noteq> a \<Longrightarrow> a \<notin> set (xs[i := c])"
  using set_update_subset_insert [of xs i c] by auto

lemma calls_step_length [simp]: "length (calls (step env i s)) = length (calls s)"
  by (simp add: step_def Let_def split: prod.split)

lemma calls_step_other:
  "j \<noteq> i \<Longrightarrow> calls (step env i s) ! j = calls s ! j"
  by (simp add: step_def Let_def split: prod.split)

lemma resume_calls [simp]: "calls (snd (resume env c s)) = calls s"
  by (cases c) (auto simp: construct_def Let_def split: option.split)

lemma step_finished:
  "stepsLeft (calls s ! i) = 0 \<Longrightarrow> step env i s = s"
proof (cases "i < length (calls s)")
  case False
  then show ?thesis by (simp add: step_def)
next
  case True
  assume "stepsLeft (calls s ! i) = 0"
  then have "resume env (calls s ! i) s = (calls s ! i, s)"
    by (cases "calls s ! i") simp_all
  with True show ?thesis
    by (simp add: step_def)
qed

lemma step_coordInv:
  assumes "coordInv s"
  shows "coordInv (step env i s)"
proof (cases "i < length (calls s)")
  case False
  then show ?thesis using assms by (simp add: step_def)
next
  case True
  from assms have np: "Polling \<notin> set (calls s)"
    and fl: "isInitializing s \<longrightarrow> globalRedNoteTools s \<noteq> None"
    and cnt: "inFlight s = (if isInitializing s then 1 else 0)"
    by (simp_all add: coordInv_def)
  from True np have cur: "calls s ! i \<noteq> Polling"
    by (metis nth_mem)
  note upd = length_filter_update [OF True, of isInFlight]
  show ?thesis
  proof (cases "calls s ! i")
    case NotCalled
    show ?thesis
    proof (cases "globalRedNoteTools s")
      case (Some n)
      with NotCalled True np fl cnt upd [of "Returned (Some n)"] show ?thesis
        by (simp add: coordInv_def step_def inFlight_def not_in_set_update)
    next
      case None
      with fl have nf: "\<not> isInitializing s" by simp
      show ?thesis
      proof (cases "constructorThrows env (constructions s)")
        case None' : None
        with None nf NotCalled True np cnt upd [of "Initializing (constructions s)"] show ?thesis
          by (simp add: coordInv_def step_def inFlight_def construct_def Let_def not_in_set_update)
      next
        case (Some e)
        with None nf NotCalled True np cnt upd [of "Threw e"] show ?thesis
          by (simp add: coordInv_def step_def inFlight_def construct_def Let_def not_in_set_update)
      qed
    qed
  next
    case Polling
    with cur show ?thesis by simp
  next
    case (Initializing n)
    with True upd [of NotCalled] cnt have flag: "isInitializing s" and one: "inFlight s = 1"
      by (auto simp: inFlight_def split: if_splits)
    show ?thesis
    proof (cases "initializeThrows env n")
      case None
      with Initializing True np one upd [of "Returned (globalRedNoteTools s)"] show ?thesis
        by (simp add: coordInv_def step_def inFlight_def Let_def not_in_set_update)
    next
      case (Some e)
      with Initializing True np one upd [of "Threw e"] show ?thesis
        by (simp add: coordInv_def step_def inFlight_def Let_def not_in_set_update)
    qed
  next
    case (Returned r)
    with assms show ?thesis by (simp add: step_finished)
  next
    case (Threw e)
    with assms show ?thesis by (simp add: step_finished)
  qed
qed

lemma run_coordInv: "coordInv s \<Longrightarrow> coordInv (run env schedule s)"
  by (induction schedule arbitrary: s) (simp_all add: step_coordInv)

lemma initial_coordInv: "coordInv (initial C)"
  by (simp add: coordInv_def initial_def inFlight_def)


lemma step_okInv:
  assumes ok: "okInv s" and c0: "constructorThrows env 0 = None"
    and i0: "initializeThrows env 0 = None"
  shows "okInv (step env i s)"
proof (cases "i < length (calls s)")
  case False
  then show ?thesis using ok by (simp add: step_def)
next
  case True
  then have mem: "calls s ! i \<in> set (calls s)" by simp
  have upd: "\<forall>c\<in>set xs. P c \<Longrightarrow> P c' \<Longrightarrow> \<forall>c\<in>set (xs[i := c']). P c" for xs P c'
    using set_update_subset_insert [of xs i c'] by auto
  show ?thesis
  proof (cases "globalRedNoteTools s")
    case None
    with ok have z: "constructions s = 0" and nf: "\<not> isInitializing s"
      and all: "\<forall>c\<in>set (calls s). c = NotCalled"
      by (simp_all add: okInv_def)
    from all mem have cur: "calls s ! i = NotCalled" by blast
    have "\<forall>c\<in>set ((calls s)[i := Initializing 0]).
            c = NotCalled \<or> c = Initializing 0 \<or> c = Returned (Some 0)"
      using all by (intro upd) auto
    with None z nf cur True c0 show ?thesis
      by (simp add: okInv_def step_def construct_def Let_def)
  next
    case (Some n)
    with ok have n: "n = 0" and one: "constructions s = 1"
      and all: "\<forall>c\<in>set (calls s). c = NotCalled \<or> c = Initializing 0 \<or> c = Returned (Some 0)"
      by (simp_all add: okInv_def)
    have after: "\<forall>c\<in>set ((calls s)[i := Returned (Some 0)]).
            c = NotCalled \<or> c = Initializing 0 \<or> c = Returned (Some 0)"
      using all by (intro upd) auto
    from all mem consider "calls s ! i = NotCalled" | "calls s ! i = Initializing 0"
      | "calls s ! i = Returned (Some 0)" by blast
    then show ?thesis
    proof cases
      case 1
      with Some n one True after show ?thesis
        by (simp add: okInv_def step_def)
    next
      case 2
      with Some n one True after i0 show ?thesis
        by (simp add: okInv_def step_def Let_def)
    next
      case 3
      with ok show ?thesis by (simp add: step_finished)
    qed
  qed
qed

lemma step_progress:
  assumes ok: "okInv s" and c0: "constructorThrows env 0 = None"
    and i0: "initializeThrows env 0 = None" and i: "i < length (calls s)"
  shows "stepsLeft (calls (step env i s) ! i) \<le> stepsLeft (calls s ! i) - 1"
proof -
  from i have mem: "calls s ! i \<in> set (calls s)" by simp
  show ?thesis
  proof (cases "globalRedNoteTools s")
    case None
    with ok mem have cur: "calls s ! i = NotCalled" and nf: "\<not> isInitializing s"
      and z: "constructions s = 0"
      by (auto simp: okInv_def)
    with None i c0 show ?thesis
      by (simp add: step_def construct_def Let_def)
  next
    case (Some n)
    with ok mem consider "calls s ! i = NotCalled" | "calls s ! i = Initializing 0"
      | "calls s ! i = Returned (Some 0)" by (auto simp: okInv_def)
    then show ?thesis
    proof cases
      case 1
      with Some i show ?thesis by (simp add: step_def)
    next
      case 2
      with Some i i0 show ?thesis by (simp add: step_def Let_def)
    next
      case 3
      then show ?thesis by (simp add: step_finished)
    qed
  qed
qed

lemma calls_run_length [simp]: "length (calls (run env schedule s)) = length (calls s)"
  by (induction schedule arbitrary: s) simp_all

lemma run_okInv:
  "okInv s \<Longrightarrow> constructorThrows env 0 = None \<Longrightarrow> initializeThrows env 0 = None \<Longrightarrow>
     okInv (run env schedule s)"
  by (induction schedule arbitrary: s) (simp_all add: step_okInv)

lemma step_stepsLeft_mono:
  assumes "okInv s" "constructorThrows env 0 = None" "initializeThrows env 0 = None"
    "j < length (calls s)"
  shows "stepsLeft (calls (step env i s) ! j) \<le> stepsLeft (calls s ! j) - (if i = j then 1 else 0)"
proof (cases "i = j")
  case True
  with step_progress [OF assms(1-3), of j] assms(4) show ?thesis by simp
next
  case False
  then show ?thesis by (simp add: calls_step_other)
qed

lemma run_progress:
  "okInv s \<Longrightarrow> constructorThrows env 0 = None \<Longrightarrow> initializeThrows env 0 = None \<Longrightarrow>
   j < length (calls s) \<Longrightarrow>
     stepsLeft (calls (run env schedule s) ! j) \<le> stepsLeft (calls s ! j) - count_list schedule j"
proof (induction schedule arbitrary: s)
  case Nil
  then show ?case by simp
next
  case (Cons i schedule)
  have "stepsLeft (calls (run env schedule (step env i s)) ! j)
          \<le> stepsLeft (calls (step env i s) ! j) - count_list schedule j"
    using Cons.prems by (intro Cons.IH step_okInv) simp_all
  also have "\<dots> \<le> (stepsLeft (calls s ! j) - (if i = j then 1 else 0)) - count_list schedule j"
    using step_stepsLeft_mono [OF Cons.prems, of i] by (rule diff_le_mono)
  finally show ?case by (simp split: if_splits)
qed

lemma initial_okInv: "okInv (initial C)"
  by (simp add: okInv_def initial_def)

text \<open>
  Whatever the constructor and \<^verbatim>\<open>initialize()\<close> do and in whatever order the
  calls run, at most one call is awaiting \<^verbatim>\<open>initialize()\<close>.
\<close>

lemma at_most_one_in_flight: "inFlight (run env schedule (initial C)) \<le> 1"
  using run_coordInv [OF initial_coordInv, of env schedule C]
  by (simp add: coordInv_def split: if_splits)

text \<open>
  Claim C4. \<open>C\<close> calls of \<^verbatim>\<open>getRedNoteTools\<close> start with no instance, and run in
  any order, one at a time, each until its next \<^verbatim>\<open>await\<close>. Provided the first
  \<^verbatim>\<open>new RedNoteTools()\<close> and its \<^verbatim>\<open>initialize()\<close> do not throw: at every moment at
  most one call is awaiting \<^verbatim>\<open>initialize()\<close>, at most one instance has been
  constructed, and a call that has returned has returned instance 0; and once
  every call has been given the two turns it can need, exactly one instance has
  been constructed and all \<open>C\<close> calls have returned it.
\<close>

theorem singleton_uniqueness:
  assumes "constructorThrows env 0 = None" and "initializeThrows env 0 = None"
  shows "inFlight (run env schedule (initial C)) \<le> 1
     \<and> constructions (run env schedule (initial C)) \<le> 1
     \<and> (\<forall>c\<in>set (calls (run env schedule (initial C))).
           c = NotCalled \<or> c = Initializing 0 \<or> c = Returned (Some 0))
     \<and> (0 < C \<and> (\<forall>i<C. 2 \<le> count_list schedule i) \<longrightarrow>
           constructions (run env schedule (initial C)) = 1
           \<and> calls (run env schedule (initial C)) = replicate C (Returned (Some 0)))"
proof -
  let ?s = "run env schedule (initial C)"
  have ok: "okInv ?s"
    using initial_okInv assms by (rule run_okInv)
  have len: "length (calls ?s) = C"
    by (simp add: initial_def)
  have members: "\<forall>c\<in>set (calls ?s). c = NotCalled \<or> c = Initializing 0 \<or> c = Returned (Some 0)"
    using ok by (auto simp: okInv_def initial_def split: option.splits)
  have atmost: "constructions ?s \<le> 1"
    using ok by (auto simp: okInv_def split: option.splits)
  have finished: "constructions ?s = 1 \<and> calls ?s = replicate C (Returned (Some 0))"
    if pos: "0 < C" and fair: "\<forall>i<C. 2 \<le> count_list schedule i"
  proof -
    have returned: "calls ?s ! j = Returned (Some 0)" if j: "j < C" for j
    proof -
      have "stepsLeft (calls ?s ! j) \<le> stepsLeft (calls (initial C) ! j) - count_list schedule j"
        using initial_okInv assms j by (intro run_progress) (simp_all add: initial_def)
      also have "\<dots> = 0"
        using fair j by (simp add: initial_def)
      finally have zero: "stepsLeft (calls ?s ! j) = 0" by simp
      from j len have "calls ?s ! j \<in> set (calls ?s)" by simp
      with members zero show ?thesis by auto
    qed
    then have all: "calls ?s = replicate C (Returned (Some 0))"
      using len by (intro nth_equalityI) simp_all
    from pos all have "Returned (Some 0) \<in> set (calls ?s)" by simp
    with ok have "constructions ?s = 1"
      by (auto simp: okInv_def split: option.splits)
    with all show ?thesis by simp
  qed
  from at_most_one_in_flight atmost members finished show ?thesis by blast
qed

theorem singleton_uniqueness_witness:
  "constructorThrows allGood 0 = None \<and> initializeThrows allGood 0 = None
   \<and> (0::nat) < 3
   \<and> 2 \<le> count_list [2, 0, 1, 0, 2, 1] (0::nat)
   \<and> 2 \<le> count_list [2, 0, 1, 0, 2, 1] (1::nat)
   \<and> 2 \<le> count_list [2, 0, 1, 0, 2, 1] (2::nat)
   \<and> inFlight (run allGood [2, 0, 1, 0, 2, 1] (initial 3)) \<le> 1
   \<and> constructions (run allGood [2, 0, 1, 0, 2, 1] (initial 3)) = 1
   \<and> calls (run allGood [2, 0, 1, 0, 2, 1] (initial 3))
       = [Returned (Some 0), Returned (Some 0), Returned (Some 0)]"
proof -
  have c: "constructorThrows allGood 0 = None" and i: "initializeThrows allGood 0 = None"
    by (simp_all add: allGood_def)
  have counts: "2 \<le> count_list [2, 0, 1, 0, 2, 1] (0::nat)"
    "2 \<le> count_list [2, 0, 1, 0, 2, 1] (1::nat)" "2 \<le> count_list [2, 0, 1, 0, 2, 1] (2::nat)"
    by simp_all
  have fair: "\<forall>i<3. 2 \<le> count_list [2, 0, 1, 0, 2, 1] (i::nat)"
  proof (intro allI impI)
    fix i :: nat assume "i < 3"
    then have "i = 0 \<or> i = 1 \<or> i = 2" by arith
    with counts show "2 \<le> count_list [2, 0, 1, 0, 2, 1] i" by blast
  qed
  have three: "replicate 3 (Returned (Some 0))
      = [Returned (Some 0), Returned (Some 0), Returned (Some 0)]"
    by (simp add: numeral_3_eq_3)
  from singleton_uniqueness [OF c i, of "[2, 0, 1, 0, 2, 1]" 3] fair
  have "inFlight (run allGood [2, 0, 1, 0, 2, 1] (initial 3)) \<le> 1
      \<and> constructions (run allGood [2, 0, 1, 0, 2, 1] (initial 3)) = 1
      \<and> calls (run allGood [2, 0, 1, 0, 2, 1] (initial 3)) = replicate 3 (Returned (Some 0))"
    by simp
  with c i counts three show ?thesis by simp
qed

text \<open>
  Claim C3 at the input where the code departs from it. The user is not logged
  in, so \<^verbatim>\<open>initialize()\<close> throws. Call 0 constructs instance 0 and awaits its
  \<^verbatim>\<open>initialize()\<close>; call 1 arrives meanwhile, finds the variable assigned and
  returns instance 0 at once, without polling; call 0 resumes, clears the flag
  and throws; call 2 arrives afterwards and is handed instance 0 too. The
  variable still holds instance 0, whose \<^verbatim>\<open>initialize()\<close> never completed, and
  only one construction ever took place.
\<close>

theorem failed_initialize_keeps_instance:
  "run notLoggedIn [0, 1, 0, 2] (initial 3)
     = \<lparr>globalRedNoteTools = Some 0, isInitializing = False, constructions = 1, ready = [],
        calls = [Threw (Error ''Not logged in''), Returned (Some 0), Returned (Some 0)]\<rparr>"
  by (simp add: initial_def step_def construct_def notLoggedIn_def Let_def numeral_3_eq_3)


subsection \<open>The rate limiter, one caller at a time\<close>

lemma clock_sleep: "clock (sleep d w) = clock w + d + int (chance w (draws w))"
  by (simp add: sleep_def draw_def Let_def emit_def)

lemma lastRequestTime_sleep [simp]: "lastRequestTime (sleep d w) = lastRequestTime w"
  by (simp add: sleep_def draw_def Let_def emit_def)

lemma requestTimestamps_sleep [simp]: "requestTimestamps (sleep d w) = requestTimestamps w"
  by (simp add: sleep_def draw_def Let_def emit_def)

lemma lastRequestTime_emit [simp]: "lastRequestTime (emit e w) = lastRequestTime w"
  by (simp add: emit_def)

lemma requestTimestamps_emit [simp]: "requestTimestamps (emit e w) = requestTimestamps w"
  by (simp add: emit_def)

lemma hd_filter: "filter P xs \<noteq> [] \<Longrightarrow> P (hd (filter P xs))"
  by (induction xs) auto

lemma rlPrune_now: "fst (rlPrune w) = clock w"
  by (simp add: rlPrune_def Let_def)

lemma checkRateLimit_phases: "checkRateLimit w = rlRecord (afterInterval w)"
proof (cases "rlPrune (emit EvAdmission w)")
  case (fields now hourly w1)
  with rlPrune_now [of "emit EvAdmission w"] have now: "now = clock w" by simp
  from fields have ah: "afterHourly w = (case hourly of Some waitTime \<Rightarrow> sleep waitTime w1 | None \<Rightarrow> w1)"
    by (simp add: afterHourly_def)
  have "checkRateLimit w
      = rlRecord (case rlInterval now (afterHourly w) of
                    Some waitTime \<Rightarrow> sleep waitTime (afterHourly w) | None \<Rightarrow> afterHourly w)"
    unfolding ah by (simp add: checkRateLimit_def fields Let_def)
  then show ?thesis by (simp add: afterInterval_def now)
qed

lemma afterHourly_cases:
  "afterHourly w =
     (if MAX_REQUESTS_PER_HOUR \<le> length (withinHour (clock w) (requestTimestamps w))
      then sleep (3600000 - (clock w - hd (withinHour (clock w) (requestTimestamps w))) + 1000)
             ((emit EvAdmission w)\<lparr>requestTimestamps := withinHour (clock w) (requestTimestamps w)\<rparr>)
      else (emit EvAdmission w)\<lparr>requestTimestamps := withinHour (clock w) (requestTimestamps w)\<rparr>)"
  by (simp add: afterHourly_def rlPrune_def Let_def withinHour_def)

lemma afterHourly_props:
  "lastRequestTime (afterHourly w) = lastRequestTime w"
  "requestTimestamps (afterHourly w) = withinHour (clock w) (requestTimestamps w)"
  "clock w \<le> clock (afterHourly w)"
  "MAX_REQUESTS_PER_HOUR \<le> length (withinHour (clock w) (requestTimestamps w)) \<Longrightarrow>
     hd (withinHour (clock w) (requestTimestamps w)) + 3600000 + 1000 \<le> clock (afterHourly w)"
proof -
  let ?ts = "withinHour (clock w) (requestTimestamps w)"
  show "lastRequestTime (afterHourly w) = lastRequestTime w"
    by (simp add: afterHourly_cases)
  show "requestTimestamps (afterHourly w) = ?ts"
    by (simp add: afterHourly_cases)
  have young: "clock w - hd ?ts < 3600000" if "MAX_REQUESTS_PER_HOUR \<le> length ?ts"
  proof -
    from that have "?ts \<noteq> []" by (auto simp: MAX_REQUESTS_PER_HOUR_def)
    then show ?thesis unfolding withinHour_def by (rule hd_filter)
  qed
  show "clock w \<le> clock (afterHourly w)"
    using young by (auto simp: afterHourly_cases clock_sleep)
  show "hd ?ts + 3600000 + 1000 \<le> clock (afterHourly w)"
    if "MAX_REQUESTS_PER_HOUR \<le> length ?ts"
    using that by (simp add: afterHourly_cases clock_sleep)
qed

lemma afterInterval_cases:
  "afterInterval w =
     (if clock w - lastRequestTime w < MIN_INTERVAL
      then sleep (MIN_INTERVAL - (clock w - lastRequestTime w)) (afterHourly w)
      else afterHourly w)"
  by (simp add: afterInterval_def rlInterval_def Let_def afterHourly_props)

lemma afterInterval_props:
  "lastRequestTime (afterInterval w) = lastRequestTime w"
  "requestTimestamps (afterInterval w) = withinHour (clock w) (requestTimestamps w)"
  "clock (afterHourly w) \<le> clock (afterInterval w)"
  "lastRequestTime w + MIN_INTERVAL \<le> clock (afterInterval w)"
proof -
  show "lastRequestTime (afterInterval w) = lastRequestTime w"
    by (simp add: afterInterval_cases afterHourly_props)
  show "requestTimestamps (afterInterval w) = withinHour (clock w) (requestTimestamps w)"
    by (simp add: afterInterval_cases afterHourly_props)
  show "clock (afterHourly w) \<le> clock (afterInterval w)"
    by (simp add: afterInterval_cases clock_sleep)
  show "lastRequestTime w + MIN_INTERVAL \<le> clock (afterInterval w)"
    using afterHourly_props(3) [of w]
    by (simp add: afterInterval_cases clock_sleep)
qed

text \<open>
  A caller that runs \<^verbatim>\<open>checkRateLimit\<close> alone, from entry to return, records a
  time at least \<open>MIN_INTERVAL\<close> after the time recorded before it.
\<close>

lemma checkRateLimit_alone_min_interval:
  "MIN_INTERVAL \<le> lastRequestTime (checkRateLimit w) - lastRequestTime w"
  using afterInterval_props(4) [of w]
  by (simp add: checkRateLimit_phases rlRecord_def emit_def)

lemma length_filter_hd:
  "xs \<noteq> [] \<Longrightarrow> \<not> P (hd xs) \<Longrightarrow> Suc (length (filter P xs)) \<le> length xs"
  by (cases xs) (simp_all add: le_imp_less_Suc)

lemma withinHour_mono:
  assumes "a \<le> b"
  shows "length (withinHour b ts) \<le> length (withinHour a ts)"
proof -
  have "withinHour b ts = filter (\<lambda>t. b - t < 3600000) (withinHour a ts)"
    using assms unfolding withinHour_def filter_filter
    by (intro filter_cong) auto
  then show ?thesis by simp
qed

text \<open>
  And it keeps the quota: if at most \<open>MAX_REQUESTS_PER_HOUR\<close> timestamps lay within
  the hour before the last recorded time, the same holds when it returns, its own
  timestamp included.
\<close>

lemma checkRateLimit_alone_quota:
  assumes past: "lastRequestTime w \<le> clock w"
    and quota: "length (withinHour (lastRequestTime w) (requestTimestamps w)) \<le> MAX_REQUESTS_PER_HOUR"
  shows "length (withinHour (lastRequestTime (checkRateLimit w))
                     (requestTimestamps (checkRateLimit w))) \<le> MAX_REQUESTS_PER_HOUR
       \<and> lastRequestTime (checkRateLimit w) = clock (checkRateLimit w)"
proof -
  let ?ts = "withinHour (clock w) (requestTimestamps w)"
  let ?T = "clock (afterInterval w)"
  have rec: "lastRequestTime (checkRateLimit w) = ?T" "clock (checkRateLimit w) = ?T"
    "requestTimestamps (checkRateLimit w) = ?ts @ [?T]"
    by (simp_all add: checkRateLimit_phases rlRecord_def emit_def afterInterval_props)
  have le: "length ?ts \<le> MAX_REQUESTS_PER_HOUR"
    using withinHour_mono [OF past, of "requestTimestamps w"] quota by simp
  have "length (filter (\<lambda>t. ?T - t < 3600000) ?ts) < MAX_REQUESTS_PER_HOUR"
  proof (cases "MAX_REQUESTS_PER_HOUR \<le> length ?ts")
    case False
    have "length (filter (\<lambda>t. ?T - t < 3600000) ?ts) \<le> length ?ts"
      by (rule length_filter_le)
    with False show ?thesis by linarith
  next
    case True
    then have ne: "?ts \<noteq> []" by (auto simp: MAX_REQUESTS_PER_HOUR_def)
    from True afterHourly_props(4) [of w] afterInterval_props(3) [of w]
    have "\<not> (?T - hd ?ts < 3600000)" by simp
    with ne have "Suc (length (filter (\<lambda>t. ?T - t < 3600000) ?ts)) \<le> length ?ts"
      by (intro length_filter_hd) simp_all
    with le show ?thesis by simp
  qed
  then have "length (withinHour ?T (?ts @ [?T])) \<le> MAX_REQUESTS_PER_HOUR"
    unfolding withinHour_def [of ?T] by simp
  with rec show ?thesis by simp
qed

lemma tick_keeps_quota:
  "lastRequestTime w \<le> clock w \<Longrightarrow>
     lastRequestTime (tick d w) \<le> clock (tick d w)
     \<and> withinHour (lastRequestTime (tick d w)) (requestTimestamps (tick d w))
         = withinHour (lastRequestTime w) (requestTimestamps w)"
  by (simp add: tick_def)

subsection \<open>The rate limiter with overlapping callers\<close>

text \<open>
  The pieces fit: a caller that nobody interrupts, resumed each time its timer
  expires or later, ends in the state that \<open>checkRateLimit\<close> computes.
\<close>

lemma rlResume_alone:
  "(case rlResume NotArrived w of
      (Admitted, w1) \<Rightarrow> checkRateLimit w = w1
    | (WaitingInterval wake, w1) \<Rightarrow>
        checkRateLimit w = snd (rlResume (WaitingInterval wake) (sleep (wake - clock w1) w1))
    | (WaitingHourly now wake, w1) \<Rightarrow>
        (case rlResume (WaitingHourly now wake) (sleep (wake - clock w1) w1) of
           (Admitted, w2) \<Rightarrow> checkRateLimit w = w2
         | (WaitingInterval wake2, w2) \<Rightarrow>
             checkRateLimit w
               = snd (rlResume (WaitingInterval wake2) (sleep (wake2 - clock w2) w2))
         | (c, w2) \<Rightarrow> False)
    | (NotArrived, w1) \<Rightarrow> False)"
proof (cases "rlPrune (emit EvAdmission w)")
  case (fields now hourly w1)
  show ?thesis
  proof (cases hourly)
    case None
    with fields show ?thesis
      by (cases "rlInterval now w1")
         (simp_all add: checkRateLimit_def rlContinue_def Let_def)
  next
    case (Some waitTime)
    with fields show ?thesis
      by (cases "rlInterval now (sleep waitTime w1)")
         (simp_all add: checkRateLimit_def rlContinue_def Let_def)
  qed
qed

text \<open>
  Claim C6 at an input where the code departs from it. Caller 0 is admitted at
  100000. Caller 1 enters at 105000: five seconds since the last request, so
  it is suspended for the remaining five. Caller 2 enters at 106000, while
  caller 1 is suspended: \<^verbatim>\<open>lastRequestTime\<close> is still 100000, so it is suspended
  for four seconds. Both resume at 110000 and both record 110000, without
  looking at \<^verbatim>\<open>lastRequestTime\<close> again: two consecutive admissions 0 ms apart.
\<close>

theorem overlapping_callers_break_min_interval:
  "map_option (\<lambda>(w, cs). (grantTimes (trace w), requestTimestamps w, cs))
        (rlRun overlapTwo (fresh 0 (), replicate 3 NotArrived))
     = Some ([100000, 110000, 110000], [100000, 110000, 110000],
             [Admitted, Admitted, Admitted])
   \<and> \<not> spaced [100000, 110000, 110000]"
  by code_simp

text \<open>
  Claim C5 at an input where the code departs from it. Nineteen callers, one
  after the other and 10 seconds apart, are admitted from 100000 to 280000.
  Callers 19, 20 and 21 enter 5, 6 and 7 seconds after the last admission, each
  while the ones before it are suspended: each finds 19 timestamps, below the
  quota, and is suspended until 290000, where all three record their timestamp.
  The sequence then holds 22 timestamps, all from the last 190 seconds. Caller 22
  enters at 300000: 22 timestamps remain after its pruning; it waits until the
  oldest one is an hour and a second old, and records its own at 3701000, when
  the sequence holds 23 timestamps of which 22 lie within the last hour.
\<close>

theorem overlapping_callers_break_quota:
  "map_option (\<lambda>(w, cs). (length (requestTimestamps w),
                          length (withinHour (clock w) (requestTimestamps w)), clock w))
        (rlRun (take 25 overlapQuota) (fresh 0 (), replicate 23 NotArrived))
     = Some (22, 22, 290000)
   \<and> map_option (\<lambda>(w, cs). (length (requestTimestamps w), cs ! 22))
        (rlRun (take 26 overlapQuota) (fresh 0 (), replicate 23 NotArrived))
     = Some (22, WaitingHourly 300000 3701000)
   \<and> map_option (\<lambda>(w, cs). (length (requestTimestamps w),
                          length (withinHour (clock w) (requestTimestamps w)), clock w))
        (rlRun overlapQuota (fresh 0 (), replicate 23 NotArrived))
     = Some (23, 22, 3701000)"
  by code_simp


end
